theory Spec2Isabelle
  imports Complex_Main
begin

section \<open>Path MTU discovery of \<open>junos_pmtu\<close>\<close>

text \<open>
  The module \<open>plugins/modules/junos_pmtu.py\<close> has two functions: \<open>run_ping\<close>, which
  sends one ping command to the device and reads the summary out of the text that comes
  back, and \<open>main\<close>, which validates its arguments, sends one baseline ping without the
  DF bit and then searches for the path MTU with a step that is halved at every probe.
  Both are embedded below, \<open>main\<close> with its \<open>while True\<close> loop as the recursive function
  \<open>main_loop\<close>.
\<close>

subsection \<open>Python values and strings\<close>

text \<open>The values stored in the \<open>results\<close> dictionary of \<open>main\<close>, and the dictionary.\<close>

datatype pyval = VBool bool | VInt int | VStr string

type_synonym dict = "string \<rightharpoonup> pyval"

text \<open>\<open>d.get(key, default)\<close> for an integer entry.\<close>

definition get_int :: "dict \<Rightarrow> string \<Rightarrow> int \<Rightarrow> int" where
  "get_int d k dflt = (case d k of Some (VInt i) \<Rightarrow> i | _ \<Rightarrow> dflt)"

text \<open>\<open>str(i)\<close> on an integer (also what an f-string does with \<open>{i}\<close>): decimal digits,
  a minus sign in front of a negative number.\<close>

definition digit_char :: "nat \<Rightarrow> char" where
  "digit_char n = ''0123456789'' ! n"

fun digits :: "nat \<Rightarrow> string" where
  "digits n = (if n < 10 then [digit_char n] else digits (n div 10) @ [digit_char (n mod 10)])"

declare digits.simps [simp del]

definition str_int :: "int \<Rightarrow> string" where
  "str_int i = (if i < 0 then CHR ''-'' # digits (nat (- i)) else digits (nat i))"

text \<open>\<open>text.split("\n")\<close>: the pieces between line feeds; the empty text has one empty
  piece.\<close>

fun split_nl :: "string \<Rightarrow> string list" where
  "split_nl [] = [[]]"
| "split_nl (c # cs) =
     (if c = CHR 0x0A then [] # split_nl cs
      else (case split_nl cs of [] \<Rightarrow> [[c]] | l # ls \<Rightarrow> (c # l) # ls))"

text \<open>\<open>s.startswith(pre)\<close>.\<close>

definition startswith :: "string \<Rightarrow> string \<Rightarrow> bool" where
  "startswith s pre = (take (length pre) s = pre)"

subsection \<open>Module parameters\<close>

text \<open>
  \<open>module.params\<close> after \<open>AnsibleModule\<close> has read \<open>argument_spec\<close>: every option with
  its declared type, options without a default being optional. \<open>state\<close> has the two
  choices \<open>absent\<close> and \<open>present\<close>. \<open>max_range\<close> is kept as an integer: its choices are
  the list \<open>MAX_SIZE_CHOICES\<close> that \<open>main\<close> builds, and the check against them is part of
  \<open>main\<close> below.
\<close>

datatype state_choice = Absent | Present

record params =
  p_count :: int
  p_dest :: string
  p_df_bit :: bool
  p_rapid :: bool
  p_source :: "string option"
  p_interface :: "string option"
  p_ttl :: "int option"
  p_size :: "int option"
  p_interval :: "int option"
  p_max_size :: int
  p_max_range :: int
  p_state :: state_choice

subsection \<open>The collaborators of \<open>run_ping\<close>\<close>

text \<open>
  Modelled from the spec: \<open>build_ping\<close> is imported from \<open>junos_ping\<close>, which is not
  among the sources. The spec (section 6) describes what the transport accepts as "a
  built probe-command representation (destination, count, payload size, interval, source,
  TTL, interface, DF flag, rapid flag)"; the command is modelled as the record of these
  nine arguments, in the order \<open>run_ping\<close> passes them.
\<close>

record ping_command =
  c_dest :: string
  c_count :: int
  c_size :: string
  c_interval :: "int option"
  c_source :: "string option"
  c_ttl :: "int option"
  c_interface :: "string option"
  c_df_bit :: bool
  c_rapid :: bool

definition build_ping :: "string \<Rightarrow> int \<Rightarrow> string \<Rightarrow> int option \<Rightarrow> string option \<Rightarrow> int option
    \<Rightarrow> string option \<Rightarrow> bool \<Rightarrow> bool \<Rightarrow> ping_command" where
  "build_ping dest count size' interval source ttl interface df_bit rapid =
     \<lparr>c_dest = dest, c_count = count, c_size = size', c_interval = interval,
      c_source = source, c_ttl = ttl, c_interface = interface, c_df_bit = df_bit,
      c_rapid = rapid\<rparr>"

text \<open>
  Modelled from the spec: the connection (\<open>get_connection(module)\<close> and \<open>conn.get\<close>) is
  the transport collaborator of the spec, which "returns raw textual output". The device
  is a state: the commands sent so far, and the text the device answers to the \<open>k\<close>-th
  command (counted from 0), which may depend on the command. A transport fault is not a
  reply and is outside this model.
\<close>

record device =
  reply :: "nat \<Rightarrow> ping_command \<Rightarrow> string"
  sent :: "ping_command list"

definition conn_get :: "device \<Rightarrow> ping_command \<Rightarrow> string \<times> device" where
  "conn_get d cmd = (reply d (length (sent d)) cmd, d\<lparr>sent := sent d @ [cmd]\<rparr>)"

text \<open>
  The two parsers \<open>parse_rate\<close> and \<open>parse_rtt\<close> are imported from \<open>junos_ping\<close> as
  well. What they read out of a summary line that was found is a parameter of the model:
  the loss percentage with the packets received and transmitted, and the round-trip
  statistics (each value as the text that \<open>float\<close> is applied to, or absent).
\<close>

record junos_ping =
  rate_of_line :: "string \<Rightarrow> int \<times> int \<times> int"
  counts_without_line :: "int \<times> int"
  parse_rtt :: "string \<Rightarrow> (string \<times> string option) list"

text \<open>
  Modelled from the spec: \<open>parse_rate\<close> of \<open>junos_ping\<close> is not among the sources. The
  spec (section 4.1) says of the summary line: "If no loss line is found, loss defaults to
  100 (treated as complete failure)"; the packet counts in that case are not specified and
  stay a parameter. The result is \<open>(pkt_loss, rx, tx)\<close>, as \<open>run_ping\<close> unpacks it.
\<close>

definition parse_rate :: "junos_ping \<Rightarrow> string option \<Rightarrow> int \<times> int \<times> int" where
  "parse_rate h rate_info =
     (case rate_info of
        None \<Rightarrow> (100, counts_without_line h)
      | Some line \<Rightarrow> rate_of_line h line)"

subsection \<open>\<open>run_ping\<close>\<close>

text \<open>The dictionary \<open>run_ping\<close> returns; the key \<open>rtt\<close> is set only when a round-trip
  line was found.\<close>

record ping_results =
  commands :: ping_command
  rtt :: "(string \<times> string option) list option"
  packet_loss :: int
  packets_rx :: int
  packets_tx :: int

text \<open>The loop over the lines of the output: the last line with each prefix is kept.\<close>

definition scan_lines :: "int \<Rightarrow> string list \<Rightarrow> string option \<times> string option" where
  "scan_lines count ls =
     foldl (\<lambda>(rtt_info, rate_info) line.
              (if startswith line ''round-trip'' then Some line else rtt_info,
               if startswith line (str_int count @ '' packets transmitted'')
               then Some line else rate_info))
           (None, None) ls"

text \<open>The second half of \<open>run_ping\<close>, from the scan of the lines to the returned
  dictionary.\<close>

definition ping_summary :: "junos_ping \<Rightarrow> int \<Rightarrow> ping_command \<Rightarrow> string \<Rightarrow> ping_results" where
  "ping_summary h count cmd ping_output =
     (let (rtt_info, rate_info) = scan_lines count (split_nl ping_output);
          (pkt_loss, rx, tx) = parse_rate h rate_info
      in \<lparr>commands = cmd,
          rtt = (case rtt_info of None \<Rightarrow> None | Some line \<Rightarrow> Some (parse_rtt h line)),
          packet_loss = pkt_loss, packets_rx = rx, packets_tx = tx\<rparr>)"

definition run_ping :: "junos_ping \<Rightarrow> device \<Rightarrow> params \<Rightarrow> string \<Rightarrow> bool \<Rightarrow> ping_results \<times> device" where
  "run_ping h d params size' df_bit =
     (let cmd = build_ping (p_dest params) (p_count params) size' (p_interval params)
                  (p_source params) (p_ttl params) (p_interface params) df_bit
                  (p_rapid params);
          (ping_output, d') = conn_get d cmd
      in (ping_summary h (p_count params) cmd ping_output, d'))"

subsection \<open>\<open>main\<close>\<close>

definition INET_MIN_MTU_SIZE :: int where
  "INET_MIN_MTU_SIZE = 68"

definition INET_MAX_MTU_SIZE :: int where
  "INET_MAX_MTU_SIZE = 65496"

definition INET_HEADER_SIZE :: int where
  "INET_HEADER_SIZE = 20"

definition ICMP_HEADER_SIZE :: int where
  "ICMP_HEADER_SIZE = 8"

definition INET_AND_ICMP_HEADER_SIZE :: int where
  "INET_AND_ICMP_HEADER_SIZE = INET_HEADER_SIZE + ICMP_HEADER_SIZE"

definition MAX_SIZE_CHOICES :: "int list" where
  "MAX_SIZE_CHOICES = [0] @ map (\<lambda>x. 2 ^ x) [1..<17]"

text \<open>
  How a run ends: \<open>module.exit_json(**results)\<close>, \<open>module.fail_json(msg=..., **results)\<close>
  (each with the keyword arguments it is called with; both leave \<open>main\<close>), or
  \<open>AnsibleModule(argument_spec=...)\<close> rejecting the value of an option.
\<close>

datatype outcome = Exit_json dict | Fail_json dict | Argument_error string

text \<open>The \<open>while True\<close> loop of \<open>main\<close>, one probe per round.\<close>

function main_loop :: "junos_ping \<Rightarrow> params \<Rightarrow> device \<Rightarrow> int \<Rightarrow> int \<Rightarrow> dict \<Rightarrow> dict \<times> device" where
  "main_loop h params d test_size step results =
     (let test_size = (if test_size < INET_MIN_MTU_SIZE then INET_MIN_MTU_SIZE
                       else if test_size > p_max_size params then p_max_size params
                       else test_size);
          step = (if step \<ge> 2 then step div 2 else 0);
          size' = str_int (test_size - INET_AND_ICMP_HEADER_SIZE);
          (current_results, d) = run_ping h d params size' True;
          loss = packet_loss current_results
      in if loss < 100 \<and> test_size = p_max_size params
         then (results(''failed'' \<mapsto> VBool False, ''inet_mtu'' \<mapsto> VInt test_size), d)
         else let (results, test_size) =
                    (if loss < 100
                     then (results(''failed'' \<mapsto> VBool False, ''inet_mtu'' \<mapsto> VInt test_size),
                           test_size + step)
                     else (results, test_size - step))
              in if step < 1 then (results, d)
                 else main_loop h params d test_size step results)"
  by pat_completeness auto

termination
  by (relation "measure (\<lambda>(h, params, d, test_size, step, results). nat step)")
     (auto split: if_splits)

declare main_loop.simps [simp del]

text \<open>
  The same loop, keeping a record of its rounds instead of the results: the value of
  \<open>test_size\<close> that is probed (after the clamp) and the \<open>loss\<close> read from the answer, one
  pair per round, in order.
\<close>

function search_trace :: "junos_ping \<Rightarrow> params \<Rightarrow> device \<Rightarrow> int \<Rightarrow> int \<Rightarrow> (int \<times> int) list" where
  "search_trace h params d test_size step =
     (let test_size = (if test_size < INET_MIN_MTU_SIZE then INET_MIN_MTU_SIZE
                       else if test_size > p_max_size params then p_max_size params
                       else test_size);
          step = (if step \<ge> 2 then step div 2 else 0);
          size' = str_int (test_size - INET_AND_ICMP_HEADER_SIZE);
          (current_results, d) = run_ping h d params size' True;
          loss = packet_loss current_results
      in (test_size, loss) #
         (if loss < 100 \<and> test_size = p_max_size params then []
          else let test_size = (if loss < 100 then test_size + step else test_size - step)
               in if step < 1 then []
                  else search_trace h params d test_size step))"
  by pat_completeness auto

termination
  by (relation "measure (\<lambda>(h, params, d, test_size, step). nat step)")
     (auto split: if_splits)

declare search_trace.simps [simp del]

definition main :: "junos_ping \<Rightarrow> device \<Rightarrow> params \<Rightarrow> outcome \<times> device" where
  "main h d params =
     (let dest = p_dest params; max_size = p_max_size params; max_range = p_max_range params
      in if max_range \<notin> set MAX_SIZE_CHOICES then (Argument_error ''max_range'', d)
         else if max_size < INET_MIN_MTU_SIZE \<or> max_size > INET_MAX_MTU_SIZE
         then (Fail_json [''msg'' \<mapsto> VStr (''The value of the max_size option(''
                   @ str_int max_size @ '') must be between '' @ str_int INET_MIN_MTU_SIZE
                   @ '' and '' @ str_int INET_MAX_MTU_SIZE @ ''.'')], d)
         else
           let results = [''changed'' \<mapsto> VBool False, ''failed'' \<mapsto> VBool True,
                          ''inet_mtu'' \<mapsto> VInt 0, ''dest'' \<mapsto> VStr dest];
               size' = str_int (INET_MIN_MTU_SIZE - INET_AND_ICMP_HEADER_SIZE);
               (reachability_results, d) = run_ping h d params size' False
           in if packet_loss reachability_results = 100
              then (Exit_json (results(''msg'' \<mapsto>
                      VStr (''Basic connectivity to '' @ dest @ '' failed.''))), d)
              else
                let test_size = max_size;
                    step = max_range;
                    min_test_size = test_size - (max_range - 1);
                    min_test_size = (if min_test_size < INET_MIN_MTU_SIZE
                                     then INET_MIN_MTU_SIZE else min_test_size);
                    (results, d) = main_loop h params d test_size step results
                in if get_int results ''inet_mtu'' 0 = 0
                   then (Fail_json (results(''msg'' \<mapsto>
                           VStr (''The MTU of the path to '' @ dest @ '' is less than ''
                             @ ''the minimum tested size('' @ str_int min_test_size
                             @ ''). Try '' @ ''decreasing max_size('' @ str_int max_size
                             @ '') or increasing '' @ ''max_range('' @ str_int max_range
                             @ '').''))), d)
                   else (Exit_json results, d))"

text \<open>
  \<open>main\<close> with the same record kept: the rounds of the search loop of a run, and no round
  when the run ends before the loop (rejected arguments, or a baseline probe that is lost).
\<close>

definition main_trace :: "junos_ping \<Rightarrow> device \<Rightarrow> params \<Rightarrow> (int \<times> int) list" where
  "main_trace h d params =
     (let max_size = p_max_size params; max_range = p_max_range params
      in if max_range \<notin> set MAX_SIZE_CHOICES then []
         else if max_size < INET_MIN_MTU_SIZE \<or> max_size > INET_MAX_MTU_SIZE then []
         else
           let size' = str_int (INET_MIN_MTU_SIZE - INET_AND_ICMP_HEADER_SIZE);
               (reachability_results, d) = run_ping h d params size' False
           in if packet_loss reachability_results = 100 then []
              else search_trace h params d max_size max_range)"

subsection \<open>Notions used to state the properties\<close>

text \<open>The command \<open>run_ping\<close> builds for a payload size and a DF flag.\<close>

definition probe_cmd :: "params \<Rightarrow> string \<Rightarrow> bool \<Rightarrow> ping_command" where
  "probe_cmd params size' df_bit =
     build_ping (p_dest params) (p_count params) size' (p_interval params)
       (p_source params) (p_ttl params) (p_interface params) df_bit (p_rapid params)"

text \<open>The loss \<open>run_ping\<close> reports for a reply of the device: the entry \<open>packet_loss\<close> of
  its result.\<close>

definition reported_loss :: "junos_ping \<Rightarrow> int \<Rightarrow> string \<Rightarrow> int" where
  "reported_loss h count ping_output =
     fst (parse_rate h (snd (scan_lines count (split_nl ping_output))))"

text \<open>A device that has not been sent anything and answers with \<open>r\<close>.\<close>

definition new_device :: "(nat \<Rightarrow> ping_command \<Rightarrow> string) \<Rightarrow> device" where
  "new_device r = \<lparr>reply = r, sent = []\<rparr>"

text \<open>The probes of a run, in the order they were sent: each command with the loss that
  was reported for it. The successful ones are those with a loss below 100.\<close>

definition probe_log :: "junos_ping \<Rightarrow> params \<Rightarrow> device \<Rightarrow> (ping_command \<times> int) list" where
  "probe_log h params d =
     map (\<lambda>k. (sent d ! k, reported_loss h (p_count params) (reply d k (sent d ! k))))
       [0..<length (sent d)]"

definition successes :: "('a \<times> int) list \<Rightarrow> ('a \<times> int) list" where
  "successes entries = filter (\<lambda>e. snd e < 100) entries"

text \<open>The keyword arguments a run ends with, and their \<open>inet_mtu\<close>.\<close>

definition result_dict :: "outcome \<Rightarrow> dict" where
  "result_dict out =
     (case out of Exit_json r \<Rightarrow> r | Fail_json r \<Rightarrow> r | Argument_error a \<Rightarrow> Map.empty)"

definition inet_mtu_of :: "outcome \<Rightarrow> int" where
  "inet_mtu_of out = get_int (result_dict out) ''inet_mtu'' 0"

text \<open>The \<open>inet_mtu\<close> held by a \<open>results\<close> dictionary.\<close>

definition recorded_mtu :: "dict \<Rightarrow> int" where
  "recorded_mtu results = get_int results ''inet_mtu'' 0"

text \<open>The parts of \<open>main\<close> before the loop: the \<open>results\<close> dictionary as it is created,
  the baseline command, \<open>min_test_size\<close>, and the message of the last \<open>fail_json\<close>.\<close>

definition initial_results :: "params \<Rightarrow> dict" where
  "initial_results params =
     [''changed'' \<mapsto> VBool False, ''failed'' \<mapsto> VBool True,
      ''inet_mtu'' \<mapsto> VInt 0, ''dest'' \<mapsto> VStr (p_dest params)]"

definition baseline_cmd :: "params \<Rightarrow> ping_command" where
  "baseline_cmd params =
     probe_cmd params (str_int (INET_MIN_MTU_SIZE - INET_AND_ICMP_HEADER_SIZE)) False"

definition min_test_size :: "params \<Rightarrow> int" where
  "min_test_size params =
     (let m = p_max_size params - (p_max_range params - 1)
      in if m < INET_MIN_MTU_SIZE then INET_MIN_MTU_SIZE else m)"

definition too_small_msg :: "params \<Rightarrow> string" where
  "too_small_msg params =
     ''The MTU of the path to '' @ p_dest params @ '' is less than the minimum tested size(''
       @ str_int (min_test_size params)
       @ ''). Try decreasing max_size('' @ str_int (p_max_size params)
       @ '') or increasing max_range('' @ str_int (p_max_range params) @ '').''"

subsection \<open>One round of the loop\<close>

text \<open>
  The pieces of one round of \<open>main_loop\<close>, named so that the loop can be unfolded one
  round at a time (\<open>main_loop_step\<close> below proves that they are the loop's): the clamped
  size, the halved step, the results after a success, the command of the round, the loss
  reported for it, the device after it, the results and the size of the next round, and
  whether the loop leaves after this round.
\<close>

definition clamp_size :: "params \<Rightarrow> int \<Rightarrow> int" where
  "clamp_size params test_size =
     (if test_size < INET_MIN_MTU_SIZE then INET_MIN_MTU_SIZE
      else if test_size > p_max_size params then p_max_size params
      else test_size)"

definition halve :: "int \<Rightarrow> int" where
  "halve step = (if step \<ge> 2 then step div 2 else 0)"

definition confirmed :: "dict \<Rightarrow> int \<Rightarrow> dict" where
  "confirmed results test_size =
     results(''failed'' \<mapsto> VBool False, ''inet_mtu'' \<mapsto> VInt test_size)"

definition next_cmd :: "params \<Rightarrow> int \<Rightarrow> ping_command" where
  "next_cmd params test_size =
     probe_cmd params (str_int (clamp_size params test_size - INET_AND_ICMP_HEADER_SIZE)) True"

definition next_loss :: "junos_ping \<Rightarrow> params \<Rightarrow> device \<Rightarrow> int \<Rightarrow> int" where
  "next_loss h params d test_size =
     reported_loss h (p_count params) (reply d (length (sent d)) (next_cmd params test_size))"

definition after_probe :: "params \<Rightarrow> device \<Rightarrow> int \<Rightarrow> device" where
  "after_probe params d test_size = d\<lparr>sent := sent d @ [next_cmd params test_size]\<rparr>"

definition next_results :: "junos_ping \<Rightarrow> params \<Rightarrow> device \<Rightarrow> int \<Rightarrow> dict \<Rightarrow> dict" where
  "next_results h params d test_size results =
     (if next_loss h params d test_size < 100
      then confirmed results (clamp_size params test_size) else results)"

definition next_size :: "junos_ping \<Rightarrow> params \<Rightarrow> device \<Rightarrow> int \<Rightarrow> int \<Rightarrow> int" where
  "next_size h params d test_size step =
     (if next_loss h params d test_size < 100
      then clamp_size params test_size + halve step
      else clamp_size params test_size - halve step)"

definition stops :: "junos_ping \<Rightarrow> params \<Rightarrow> device \<Rightarrow> int \<Rightarrow> int \<Rightarrow> bool" where
  "stops h params d test_size step \<longleftrightarrow>
     (next_loss h params d test_size < 100 \<and> clamp_size params test_size = p_max_size params)
     \<or> halve step < 1"

text \<open>The results record a success at a size.\<close>

definition records :: "dict \<Rightarrow> int \<Rightarrow> bool" where
  "records results test_size \<longleftrightarrow>
     results ''inet_mtu'' = Some (VInt test_size) \<and> results ''failed'' = Some (VBool False)"

text \<open>
  The search is near a path MTU \<open>mtu\<close> when the next probe is within reach of the steps that
  are left: at most twice the next step above it (and exactly that far only when \<open>mtu\<close> itself
  has just been found), less than twice the next step below it; in the last round, when the
  next step is 0, the probe is at \<open>mtu\<close>, or one above it with \<open>mtu\<close> found. \<open>found\<close> is the
  \<open>inet_mtu\<close> recorded so far.
\<close>

definition near :: "params \<Rightarrow> int \<Rightarrow> int \<Rightarrow> int \<Rightarrow> int \<Rightarrow> bool" where
  "near params mtu found test_size step \<longleftrightarrow>
     (if 1 \<le> halve step
      then - 2 * halve step \<le> mtu - clamp_size params test_size
           \<and> mtu - clamp_size params test_size \<le> 2 * halve step - 1
           \<and> (mtu - clamp_size params test_size = - 2 * halve step \<longrightarrow> found = mtu)
      else clamp_size params test_size = mtu
           \<or> (clamp_size params test_size = mtu + 1 \<and> found = mtu))"

subsection \<open>Example inputs\<close>

text \<open>
  A parser that knows one summary line, two replies of a device (all five packets
  answered; none answered), and the parameters of a run with the default \<open>max_size\<close> and
  \<open>max_range\<close>, a source address and an interface.
\<close>

definition demo_parsers :: junos_ping where
  "demo_parsers =
     \<lparr>rate_of_line = (\<lambda>line.
        if line = ''5 packets transmitted, 5 packets received, 0% packet loss''
        then (0, 5, 5) else (100, 0, 5)),
      counts_without_line = (0, 0),
      parse_rtt = (\<lambda>line. [])\<rparr>"

definition demo_ok :: string where
  "demo_ok = ''PING 192.68.1.1 (192.68.1.1): 56 data bytes'' @ [CHR 0x0A]
     @ ''5 packets transmitted, 5 packets received, 0% packet loss'' @ [CHR 0x0A]
     @ ''round-trip min/avg/max/stddev = 0.9/1.0/1.2/0.1 ms''"

definition demo_lost :: string where
  "demo_lost = ''PING 192.68.1.1 (192.68.1.1): 56 data bytes'' @ [CHR 0x0A]
     @ ''5 packets transmitted, 0 packets received, 100% packet loss''"

definition demo_params :: params where
  "demo_params =
     \<lparr>p_count = 5, p_dest = ''192.68.1.1'', p_df_bit = False, p_rapid = True,
      p_source = Some ''192.168.1.2'', p_interface = Some ''ge-0/0/0.0'', p_ttl = None,
      p_size = None, p_interval = None, p_max_size = 1600, p_max_range = 512,
      p_state = Present\<rparr>"

text \<open>
  A run with \<open>max_size = 77\<close> and \<open>max_range = 32\<close> on a path where packets of 68, 74
  and 76 bytes (payloads 40, 46 and 48) get through and all others are lost.
\<close>

definition c1_params :: params where
  "c1_params = demo_params\<lparr>p_max_size := 77, p_max_range := 32\<rparr>"

definition c1_reply :: "nat \<Rightarrow> ping_command \<Rightarrow> string" where
  "c1_reply k c = (if c_size c \<in> set [''40'', ''48'', ''46''] then demo_ok else demo_lost)"

text \<open>
  The same run on a path with an MTU of 76 bytes: packets of 68, 75 and 76 bytes (payloads
  40, 47 and 48) get through, larger ones are lost.
\<close>

definition c1_fixed_mtu :: "nat \<Rightarrow> ping_command \<Rightarrow> string" where
  "c1_fixed_mtu k c = (if c_size c \<in> set [''40'', ''47'', ''48''] then demo_ok else demo_lost)"

section \<open>Properties\<close>

subsection \<open>\<open>run_ping\<close> and one round of the loop\<close>

lemma run_ping_eq:
  "run_ping h d p sz df =
     (ping_summary h (p_count p) (probe_cmd p sz df)
        (reply d (length (sent d)) (probe_cmd p sz df)),
      d\<lparr>sent := sent d @ [probe_cmd p sz df]\<rparr>)"
  by (simp add: run_ping_def conn_get_def probe_cmd_def Let_def)

lemma packet_loss_summary:
  "packet_loss (ping_summary h n c out) = reported_loss h n out"
  by (simp add: ping_summary_def reported_loss_def Let_def split: prod.splits)

lemma main_loop_step:
  "main_loop h p d t s res =
     (if stops h p d t s then (next_results h p d t res, after_probe p d t)
      else main_loop h p (after_probe p d t) (next_size h p d t s) (halve s)
             (next_results h p d t res))"
  by (subst main_loop.simps)
     (auto simp add: Let_def run_ping_eq packet_loss_summary stops_def next_results_def
        next_size_def next_loss_def next_cmd_def after_probe_def clamp_size_def halve_def
        confirmed_def)

lemma halve_less: "\<not> halve s < 1 \<Longrightarrow> nat (halve s) < nat s"
  by (auto simp: halve_def split: if_splits)

lemma halve_bound: "s < 2 ^ Suc k \<Longrightarrow> \<not> halve s < 1 \<Longrightarrow> halve s < 2 ^ k"
  by (auto simp: halve_def split: if_splits)

lemma halve_small: "s < 2 \<Longrightarrow> halve s < 1"
  by (simp add: halve_def)

lemma clamp_size_range:
  "INET_MIN_MTU_SIZE \<le> p_max_size p \<Longrightarrow>
     INET_MIN_MTU_SIZE \<le> clamp_size p t \<and> clamp_size p t \<le> p_max_size p"
  by (simp add: clamp_size_def)

lemma after_probe_simps:
  "reply (after_probe p d t) = reply d"
  "sent (after_probe p d t) = sent d @ [next_cmd p t]"
  by (simp_all add: after_probe_def)

lemma stops_halve: "\<not> stops h p d t s \<Longrightarrow> \<not> halve s < 1"
  by (simp add: stops_def)

subsection \<open>The loop\<close>

lemma main_loop_reply: "reply (snd (main_loop h p d t s res)) = reply d"
proof (induction "nat s" arbitrary: d t s res rule: less_induct)
  case less
  show ?case
  proof (cases "stops h p d t s")
    case True
    then show ?thesis by (subst main_loop_step) (simp add: after_probe_simps)
  next
    case False
    note IH = less.hyps[OF halve_less[OF stops_halve[OF False]]]
    show ?thesis using False by (subst main_loop_step) (simp add: IH after_probe_simps)
  qed
qed

lemma main_loop_count:
  "s < 2 ^ Suc k \<Longrightarrow> length (sent (snd (main_loop h p d t s res))) \<le> length (sent d) + Suc k"
proof (induction k arbitrary: d t s res)
  case 0
  then have "stops h p d t s" by (simp add: stops_def halve_small)
  then show ?case by (subst main_loop_step) (simp add: after_probe_simps)
next
  case (Suc k)
  show ?case
  proof (cases "stops h p d t s")
    case True
    then show ?thesis by (subst main_loop_step) (simp add: after_probe_simps)
  next
    case False
    have b: "halve s < 2 ^ Suc k"
      using Suc.prems stops_halve[OF False] by (rule halve_bound)
    have "length (sent (snd (main_loop h p (after_probe p d t) (next_size h p d t s) (halve s)
              (next_results h p d t res)))) \<le> length (sent (after_probe p d t)) + Suc k"
      by (rule Suc.IH[OF b])
    then show ?thesis using False by (subst main_loop_step) (simp add: after_probe_simps)
  qed
qed

lemma main_loop_sent:
  "\<exists>cs. sent (snd (main_loop h p d t s res)) = sent d @ cs \<and> cs \<noteq> [] \<and>
         (\<forall>c\<in>set cs. \<exists>t'. c = next_cmd p t')"
proof (induction "nat s" arbitrary: d t s res rule: less_induct)
  case less
  show ?case
  proof (cases "stops h p d t s")
    case True
    have "sent (after_probe p d t) = sent d @ [next_cmd p t] \<and> [next_cmd p t] \<noteq> [] \<and>
          (\<forall>c\<in>set [next_cmd p t]. \<exists>t'. c = next_cmd p t')"
      by (auto simp add: after_probe_simps)
    then show ?thesis using True by (subst main_loop_step) (simp only: if_True snd_conv, blast)
  next
    case False
    note IH = less.hyps[OF halve_less[OF stops_halve[OF False]]]
    let ?r = "main_loop h p (after_probe p d t) (next_size h p d t s) (halve s)
                (next_results h p d t res)"
    from IH[of "after_probe p d t" "next_size h p d t s" "next_results h p d t res"]
    obtain cs where cs: "sent (snd ?r) = sent (after_probe p d t) @ cs"
      and q: "\<forall>c\<in>set cs. \<exists>t'. c = next_cmd p t'" by blast
    have "sent (snd ?r) = sent d @ (next_cmd p t # cs)"
      using cs by (simp add: after_probe_simps)
    moreover have "next_cmd p t # cs \<noteq> []" by simp
    moreover have "\<forall>c\<in>set (next_cmd p t # cs). \<exists>t'. c = next_cmd p t'"
      using q by auto
    ultimately have "\<exists>cs. sent (snd ?r) = sent d @ cs \<and> cs \<noteq> [] \<and>
         (\<forall>c\<in>set cs. \<exists>t'. c = next_cmd p t')" by blast
    then show ?thesis using False by (subst main_loop_step) (simp only: if_False)
  qed
qed

lemma main_loop_all_lost:
  assumes "\<forall>k c. length (sent d) \<le> k \<longrightarrow> \<not> reported_loss h (p_count p) (reply d k c) < 100"
  shows "fst (main_loop h p d t s res) = res"
  using assms
proof (induction "nat s" arbitrary: d t s res rule: less_induct)
  case less
  have l: "\<not> next_loss h p d t < 100"
    using less.prems by (simp add: next_loss_def)
  then have r: "next_results h p d t res = res" by (simp add: next_results_def)
  show ?case
  proof (cases "stops h p d t s")
    case True
    then show ?thesis by (subst main_loop_step) (simp add: r)
  next
    case False
    note IH = less.hyps[OF halve_less[OF stops_halve[OF False]]]
    have "fst (main_loop h p (after_probe p d t) (next_size h p d t s) (halve s) res) = res"
      by (rule IH) (use less.prems in \<open>simp add: after_probe_simps\<close>)
    then show ?thesis using False by (subst main_loop_step) (simp add: r)
  qed
qed

lemma next_results_other_keys:
  "key \<noteq> ''failed'' \<Longrightarrow> key \<noteq> ''inet_mtu'' \<Longrightarrow> next_results h p d t res key = res key"
  by (simp add: next_results_def confirmed_def)

lemma main_loop_other_keys:
  assumes "key \<noteq> ''failed''" "key \<noteq> ''inet_mtu''"
  shows "fst (main_loop h p d t s res) key = res key"
proof (induction "nat s" arbitrary: d t s res rule: less_induct)
  case less
  show ?case
  proof (cases "stops h p d t s")
    case True
    then show ?thesis by (subst main_loop_step) (simp add: next_results_other_keys assms)
  next
    case False
    note IH = less.hyps[OF halve_less[OF stops_halve[OF False]]]
    show ?thesis using False
      by (subst main_loop_step) (simp add: IH next_results_other_keys assms)
  qed
qed

lemma probe_cmd_params:
  "probe_cmd (p\<lparr>p_df_bit := b, p_size := z, p_state := st\<rparr>) x y = probe_cmd p x y"
  by (simp add: probe_cmd_def)

lemma main_loop_params:
  "main_loop h (p\<lparr>p_df_bit := b, p_size := z, p_state := st\<rparr>) d t s res = main_loop h p d t s res"
proof (induction "nat s" arbitrary: d t s res rule: less_induct)
  case less
  let ?p = "p\<lparr>p_df_bit := b, p_size := z, p_state := st\<rparr>"
  have k: "\<And>x. clamp_size ?p x = clamp_size p x"
    by (simp add: clamp_size_def)
  have c: "\<And>x. next_cmd ?p x = next_cmd p x"
    by (simp add: next_cmd_def probe_cmd_params k)
  have l: "\<And>d x. next_loss h ?p d x = next_loss h p d x"
    by (simp add: next_loss_def c)
  have e: "stops h ?p d t s = stops h p d t s"
     "after_probe ?p d t = after_probe p d t"
     "next_results h ?p d t res = next_results h p d t res"
     "next_size h ?p d t s = next_size h p d t s"
    by (simp_all add: stops_def after_probe_def next_results_def next_size_def c l k)
  show ?case
  proof (cases "stops h p d t s")
    case True
    then show ?thesis
      unfolding main_loop_step[of h p d t s res] main_loop_step[of h ?p d t s res] e
      by simp
  next
    case False
    note IH = less.hyps[OF halve_less[OF stops_halve[OF False]]]
    show ?thesis
      unfolding main_loop_step[of h p d t s res] main_loop_step[of h ?p d t s res] e
      using False by (simp add: IH)
  qed
qed

lemma probe_log_snoc:
  "probe_log h p (d\<lparr>sent := sent d @ [c]\<rparr>) =
     probe_log h p d @ [(c, reported_loss h (p_count p) (reply d (length (sent d)) c))]"
  by (simp add: probe_log_def nth_append)

lemma probe_log_after:
  "probe_log h p (after_probe p d t) = probe_log h p d @ [(next_cmd p t, next_loss h p d t)]"
  by (simp add: after_probe_def probe_log_snoc next_loss_def)

subsection \<open>Constants and the cases of \<open>main\<close>\<close>

lemma header_size: "INET_AND_ICMP_HEADER_SIZE = 28"
  by (simp add: INET_AND_ICMP_HEADER_SIZE_def INET_HEADER_SIZE_def ICMP_HEADER_SIZE_def)

lemma str_int_40: "str_int 40 = ''40''"
  by (simp add: str_int_def digits.simps digit_char_def)

lemma str_int_68: "str_int 68 = ''68''"
  by (simp add: str_int_def digits.simps digit_char_def)

lemma str_int_65496: "str_int 65496 = ''65496''"
  by (simp add: str_int_def digits.simps digit_char_def)

lemma baseline_cmd_eq: "baseline_cmd p = probe_cmd p ''40'' False"
  by (simp add: baseline_cmd_def INET_MIN_MTU_SIZE_def header_size str_int_40)

lemma probe_cmd_sel:
  "c_size (probe_cmd p sz df) = sz" "c_df_bit (probe_cmd p sz df) = df"
  by (simp_all add: probe_cmd_def build_ping_def)

lemma choices_iff:
  "x \<in> set MAX_SIZE_CHOICES \<longleftrightarrow> x = 0 \<or> (\<exists>k\<in>{1..16}. x = 2 ^ k)"
proof -
  have "{1..<17::nat} = {1..16}" by auto
  then show ?thesis by (auto simp add: MAX_SIZE_CHOICES_def)
qed

lemma choices_list:
  "MAX_SIZE_CHOICES =
     [0, 2, 4, 8, 16, 32, 64, 128, 256, 512, 1024, 2048, 4096, 8192, 16384, 32768, 65536]"
  by code_simp

lemma main_invalid_range:
  "p_max_range p \<notin> set MAX_SIZE_CHOICES \<Longrightarrow> main h d p = (Argument_error ''max_range'', d)"
  by (simp add: main_def Let_def)

lemma main_invalid_size:
  assumes "p_max_range p \<in> set MAX_SIZE_CHOICES"
    and "p_max_size p < 68 \<or> 65496 < p_max_size p"
  shows "main h d p =
     (Fail_json [''msg'' \<mapsto> VStr (''The value of the max_size option('' @ str_int (p_max_size p)
         @ '') must be between 68 and 65496.'')], d)"
  using assms
  by (simp add: main_def Let_def INET_MIN_MTU_SIZE_def INET_MAX_MTU_SIZE_def str_int_68
      str_int_65496)

lemma main_baseline_lost:
  assumes "p_max_range p \<in> set MAX_SIZE_CHOICES"
    and "68 \<le> p_max_size p" "p_max_size p \<le> 65496"
    and "reported_loss h (p_count p) (reply d (length (sent d)) (baseline_cmd p)) = 100"
  shows "main h d p =
     (Exit_json ((initial_results p)(''msg'' \<mapsto>
         VStr (''Basic connectivity to '' @ p_dest p @ '' failed.''))),
      d\<lparr>sent := sent d @ [baseline_cmd p]\<rparr>)"
  using assms
  by (simp add: main_def Let_def INET_MIN_MTU_SIZE_def INET_MAX_MTU_SIZE_def run_ping_eq
      packet_loss_summary baseline_cmd_def initial_results_def)

lemma main_search:
  assumes "p_max_range p \<in> set MAX_SIZE_CHOICES"
    and "68 \<le> p_max_size p" "p_max_size p \<le> 65496"
    and "reported_loss h (p_count p) (reply d (length (sent d)) (baseline_cmd p)) \<noteq> 100"
  shows "main h d p =
     (if get_int (fst (main_loop h p (d\<lparr>sent := sent d @ [baseline_cmd p]\<rparr>) (p_max_size p)
                         (p_max_range p) (initial_results p))) ''inet_mtu'' 0 = 0
      then Fail_json ((fst (main_loop h p (d\<lparr>sent := sent d @ [baseline_cmd p]\<rparr>) (p_max_size p)
                         (p_max_range p) (initial_results p)))(''msg'' \<mapsto> VStr (too_small_msg p)))
      else Exit_json (fst (main_loop h p (d\<lparr>sent := sent d @ [baseline_cmd p]\<rparr>) (p_max_size p)
                         (p_max_range p) (initial_results p))),
      snd (main_loop h p (d\<lparr>sent := sent d @ [baseline_cmd p]\<rparr>) (p_max_size p)
                         (p_max_range p) (initial_results p)))"
  using assms
  by (simp add: main_def Let_def INET_MIN_MTU_SIZE_def INET_MAX_MTU_SIZE_def run_ping_eq
      packet_loss_summary baseline_cmd_def initial_results_def too_small_msg_def
      min_test_size_def split: prod.splits)

lemma min_test_size_eq:
  "min_test_size p = max 68 (p_max_size p - p_max_range p + 1)"
  by (simp add: min_test_size_def Let_def INET_MIN_MTU_SIZE_def max_def)

subsection \<open>Runs on a new device\<close>

lemma new_device_simps:
  "reply (new_device r) = r" "sent (new_device r) = []"
  "(new_device r)\<lparr>sent := cs\<rparr> = \<lparr>reply = r, sent = cs\<rparr>"
  by (simp_all add: new_device_def)

lemma clamp_size_max: "68 \<le> p_max_size p \<Longrightarrow> clamp_size p (p_max_size p) = p_max_size p"
  by (simp add: clamp_size_def INET_MIN_MTU_SIZE_def)

lemma main_all_succeed:
  assumes "p_max_range p \<in> set MAX_SIZE_CHOICES"
    and "68 \<le> p_max_size p" and "p_max_size p \<le> 65496"
    and "\<forall>k c. reported_loss h (p_count p) (r k c) < 100"
  shows "main h (new_device r) p =
     (Exit_json [''changed'' \<mapsto> VBool False, ''failed'' \<mapsto> VBool False,
                 ''inet_mtu'' \<mapsto> VInt (p_max_size p), ''dest'' \<mapsto> VStr (p_dest p)],
      \<lparr>reply = r,
       sent = [probe_cmd p ''40'' False, probe_cmd p (str_int (p_max_size p - 28)) True]\<rparr>)"
proof -
  let ?d0 = "(new_device r)\<lparr>sent := sent (new_device r) @ [baseline_cmd p]\<rparr>"
  let ?res = "confirmed (initial_results p) (p_max_size p)"
  have l0: "reported_loss h (p_count p)
          (reply (new_device r) (length (sent (new_device r))) (baseline_cmd p)) \<noteq> 100"
    using assms(4) by (simp add: new_device_simps less_imp_neq)
  have nl: "next_loss h p ?d0 (p_max_size p) < 100"
    using assms(4) by (simp add: next_loss_def new_device_simps)
  have cl: "clamp_size p (p_max_size p) = p_max_size p"
    using assms(2) by (rule clamp_size_max)
  have st: "stops h p ?d0 (p_max_size p) (p_max_range p)"
    using nl cl by (simp add: stops_def)
  have loop: "main_loop h p ?d0 (p_max_size p) (p_max_range p) (initial_results p) =
     (?res, after_probe p ?d0 (p_max_size p))"
    using st nl cl by (subst main_loop_step) (simp add: next_results_def)
  have g: "get_int ?res ''inet_mtu'' 0 = p_max_size p"
    by (simp add: get_int_def confirmed_def)
  have nz: "get_int ?res ''inet_mtu'' 0 \<noteq> 0" using assms(2) unfolding g by simp
  have dict: "?res = [''changed'' \<mapsto> VBool False, ''failed'' \<mapsto> VBool False,
                 ''inet_mtu'' \<mapsto> VInt (p_max_size p), ''dest'' \<mapsto> VStr (p_dest p)]"
    by (rule ext) (simp add: confirmed_def initial_results_def)
  have dev: "after_probe p ?d0 (p_max_size p) =
      \<lparr>reply = r, sent = [probe_cmd p ''40'' False, probe_cmd p (str_int (p_max_size p - 28)) True]\<rparr>"
    by (simp add: after_probe_def new_device_def baseline_cmd_eq next_cmd_def cl header_size)
  have "main h (new_device r) p = (Exit_json ?res, after_probe p ?d0 (p_max_size p))"
    unfolding main_search[OF assms(1-3) l0] loop fst_conv snd_conv using nz by simp
  then show ?thesis unfolding dict dev .
qed

lemma main_sent_invalid:
  "\<not> (p_max_range p \<in> set MAX_SIZE_CHOICES \<and> 68 \<le> p_max_size p \<and> p_max_size p \<le> 65496)
     \<Longrightarrow> snd (main h d p) = d"
  by (cases "p_max_range p \<in> set MAX_SIZE_CHOICES")
     (auto simp add: main_invalid_range main_invalid_size)

lemma log2_power: "\<lceil>log 2 (real_of_int (2 ^ k))\<rceil> = int k"
  by simp

lemma main_sent_shape:
  "sent (snd (main h (new_device r) p)) = [] \<or>
   (\<exists>cs. sent (snd (main h (new_device r) p)) = baseline_cmd p # cs \<and>
         (\<forall>c\<in>set cs. \<exists>t. c = next_cmd p t) \<and> 68 \<le> p_max_size p)"
proof (cases "p_max_range p \<in> set MAX_SIZE_CHOICES \<and> 68 \<le> p_max_size p \<and> p_max_size p \<le> 65496")
  case False
  then show ?thesis by (simp add: main_sent_invalid new_device_simps)
next
  case True
  then have v: "p_max_range p \<in> set MAX_SIZE_CHOICES" "68 \<le> p_max_size p"
    "p_max_size p \<le> 65496" by simp_all
  let ?d0 = "(new_device r)\<lparr>sent := sent (new_device r) @ [baseline_cmd p]\<rparr>"
  show ?thesis
  proof (cases "reported_loss h (p_count p)
          (reply (new_device r) (length (sent (new_device r))) (baseline_cmd p)) = 100")
    case True
    show ?thesis unfolding main_baseline_lost[OF v True] using v(2)
      by (simp add: new_device_simps)
  next
    case False
    from main_loop_sent[of h p ?d0 "p_max_size p" "p_max_range p" "initial_results p"]
    obtain cs where cs: "sent (snd (main_loop h p ?d0 (p_max_size p) (p_max_range p)
          (initial_results p))) = sent ?d0 @ cs"
      and q: "\<forall>c\<in>set cs. \<exists>t. c = next_cmd p t" by blast
    have "sent (snd (main h (new_device r) p)) = baseline_cmd p # cs"
      unfolding main_search[OF v False] snd_conv cs by (simp add: new_device_simps)
    then show ?thesis using q v(2) by blast
  qed
qed

lemma dict_with_dest:
  assumes "res ''dest'' = Some v"
  shows "res(''msg'' \<mapsto> x) \<noteq> [''msg'' \<mapsto> m]"
proof
  assume "res(''msg'' \<mapsto> x) = [''msg'' \<mapsto> m]"
  then have "(res(''msg'' \<mapsto> x)) ''dest'' = [''msg'' \<mapsto> m] ''dest''" by (rule arg_cong)
  then show False using assms by simp
qed

lemma scan_lines_no_rate:
  assumes "\<forall>line\<in>set ls. \<not> startswith line (str_int count @ '' packets transmitted'')"
  shows "snd (scan_lines count ls) = None"
proof -
  let ?f = "\<lambda>(rtt_info, rate_info) line.
              (if startswith line ''round-trip'' then Some line else rtt_info,
               if startswith line (str_int count @ '' packets transmitted'')
               then Some line else rate_info)"
  have "snd (foldl ?f (a, b) ls) = b" for a b
    using assms by (induction ls arbitrary: a b) simp_all
  then show ?thesis by (simp add: scan_lines_def)
qed

lemma main_no_source_keys:
  assumes "key \<notin> {''changed'', ''failed'', ''inet_mtu'', ''dest'', ''msg''}"
  shows "result_dict (fst (main h d p)) key = None"
proof (cases "p_max_range p \<in> set MAX_SIZE_CHOICES \<and> 68 \<le> p_max_size p \<and> p_max_size p \<le> 65496")
  case False
  then show ?thesis using assms
    by (cases "p_max_range p \<in> set MAX_SIZE_CHOICES")
       (auto simp add: main_invalid_range main_invalid_size result_dict_def)
next
  case True
  then have v: "p_max_range p \<in> set MAX_SIZE_CHOICES" "68 \<le> p_max_size p"
    "p_max_size p \<le> 65496" by simp_all
  let ?d0 = "d\<lparr>sent := sent d @ [baseline_cmd p]\<rparr>"
  let ?L = "main_loop h p ?d0 (p_max_size p) (p_max_range p) (initial_results p)"
  show ?thesis
  proof (cases "reported_loss h (p_count p) (reply d (length (sent d)) (baseline_cmd p)) = 100")
    case True
    show ?thesis unfolding main_baseline_lost[OF v True] using assms
      by (simp add: result_dict_def initial_results_def)
  next
    case False
    have "fst ?L key = initial_results p key"
      using assms by (intro main_loop_other_keys) auto
    then have k: "fst ?L key = None" using assms by (simp add: initial_results_def)
    show ?thesis unfolding main_search[OF v False] using k assms
      by (simp add: result_dict_def)
  qed
qed

lemma run_ping_params:
  "run_ping h d (p\<lparr>p_df_bit := b, p_size := z, p_state := st\<rparr>) sz df = run_ping h d p sz df"
  by (simp add: run_ping_def)

lemma main_params:
  "main h d (p\<lparr>p_df_bit := b, p_size := z, p_state := st\<rparr>) = main h d p"
  by (simp add: main_def run_ping_params main_loop_params cong: if_cong)

lemma records_get: "records res t \<Longrightarrow> get_int res ''inet_mtu'' 0 = t"
  by (simp add: records_def get_int_def)

subsection \<open>The example inputs\<close>

lemma demo_loss_ok: "reported_loss demo_parsers 5 demo_ok = 0"
  by (simp add: reported_loss_def demo_parsers_def demo_ok_def scan_lines_def startswith_def
      parse_rate_def str_int_def digits.simps digit_char_def)

lemma demo_loss_lost: "reported_loss demo_parsers 5 demo_lost = 100"
  by (simp add: reported_loss_def demo_parsers_def demo_lost_def scan_lines_def startswith_def
      parse_rate_def str_int_def digits.simps digit_char_def)

lemma demo_valid:
  "p_max_range demo_params \<in> set MAX_SIZE_CHOICES"
  "68 \<le> p_max_size demo_params" "p_max_size demo_params \<le> 65496" "p_count demo_params = 5"
  by (simp_all add: demo_params_def choices_list)

lemma demo_run_ok:
  "main demo_parsers (new_device (\<lambda>k c. demo_ok)) demo_params =
     (Exit_json [''changed'' \<mapsto> VBool False, ''failed'' \<mapsto> VBool False,
                 ''inet_mtu'' \<mapsto> VInt 1600, ''dest'' \<mapsto> VStr ''192.68.1.1''],
      \<lparr>reply = (\<lambda>k c. demo_ok),
       sent = [probe_cmd demo_params ''40'' False, probe_cmd demo_params (str_int (1600 - 28)) True]\<rparr>)"
  using main_all_succeed[of demo_params demo_parsers "\<lambda>k c. demo_ok"]
  by (simp add: demo_valid demo_loss_ok) (simp add: demo_params_def)

lemma demo_max_size: "p_max_size demo_params = 1600"
  by (simp add: demo_params_def)

lemma demo_range_300: "\<not> (\<exists>k\<in>{1..16}. (300::int) = 2 ^ k)"
  using choices_iff[of 300] by (simp add: choices_list)

lemma demo_range_512: "\<exists>k\<in>{1..16}. (512::int) = 2 ^ k"
  using choices_iff[of 512] by (simp add: choices_list)

subsection \<open>The rounds of the search\<close>

lemma search_trace_step:
  "search_trace h p d t s =
     (clamp_size p t, next_loss h p d t) #
       (if stops h p d t s then []
        else search_trace h p (after_probe p d t) (next_size h p d t s) (halve s))"
  by (subst search_trace.simps)
     (auto simp add: Let_def run_ping_eq packet_loss_summary stops_def
        next_size_def next_loss_def next_cmd_def after_probe_def clamp_size_def halve_def)

lemma main_loop_sent_trace:
  "sent (snd (main_loop h p d t s res)) =
     sent d @ map (\<lambda>(T, l). probe_cmd p (str_int (T - INET_AND_ICMP_HEADER_SIZE)) True)
                (search_trace h p d t s)"
proof (induction "nat s" arbitrary: d t s res rule: less_induct)
  case less
  show ?case
  proof (cases "stops h p d t s")
    case True
    then show ?thesis
      by (subst main_loop_step, subst search_trace_step)
         (simp add: after_probe_simps next_cmd_def)
  next
    case False
    note IH = less.hyps[OF halve_less[OF stops_halve[OF False]]]
    show ?thesis using False
      by (subst main_loop_step, subst search_trace_step)
         (simp add: IH after_probe_simps next_cmd_def)
  qed
qed

lemma main_loop_log_trace:
  "probe_log h p (snd (main_loop h p d t s res)) =
     probe_log h p d @
       map (\<lambda>(T, l). (probe_cmd p (str_int (T - INET_AND_ICMP_HEADER_SIZE)) True, l))
         (search_trace h p d t s)"
proof (induction "nat s" arbitrary: d t s res rule: less_induct)
  case less
  show ?case
  proof (cases "stops h p d t s")
    case True
    then show ?thesis
      by (subst main_loop_step, subst search_trace_step)
         (simp add: probe_log_after next_cmd_def)
  next
    case False
    note IH = less.hyps[OF halve_less[OF stops_halve[OF False]]]
    show ?thesis using False
      by (subst main_loop_step, subst search_trace_step)
         (simp add: IH probe_log_after next_cmd_def)
  qed
qed

lemma search_trace_range:
  assumes "INET_MIN_MTU_SIZE \<le> p_max_size p"
  shows "\<forall>(T, l)\<in>set (search_trace h p d t s). INET_MIN_MTU_SIZE \<le> T \<and> T \<le> p_max_size p"
proof (induction "nat s" arbitrary: d t s rule: less_induct)
  case less
  have T: "INET_MIN_MTU_SIZE \<le> clamp_size p t \<and> clamp_size p t \<le> p_max_size p"
    using assms by (rule clamp_size_range)
  show ?case
  proof (cases "stops h p d t s")
    case True
    then show ?thesis using T by (subst search_trace_step) simp
  next
    case False
    note IH = less.hyps[OF halve_less[OF stops_halve[OF False]]]
    show ?thesis using False T
      by (subst search_trace_step) (simp add: IH)
  qed
qed

lemma search_trace_first: "fst (hd (search_trace h p d t s)) = clamp_size p t"
  by (subst search_trace_step) simp

lemma main_loop_last_trace:
  "(successes (search_trace h p d t s) = [] \<longrightarrow> fst (main_loop h p d t s res) = res) \<and>
   (successes (search_trace h p d t s) \<noteq> [] \<longrightarrow>
      records (fst (main_loop h p d t s res)) (fst (last (successes (search_trace h p d t s)))))"
proof (induction "nat s" arbitrary: d t s res rule: less_induct)
  case less
  define e where "e = (clamp_size p t, next_loss h p d t)"
  have conf: "records (confirmed res (clamp_size p t)) (clamp_size p t)"
    by (simp add: confirmed_def records_def)
  have one: "(successes [e] = [] \<longrightarrow> next_results h p d t res = res) \<and>
      (successes [e] \<noteq> [] \<longrightarrow> records (next_results h p d t res) (fst (last (successes [e]))))"
  proof (cases "next_loss h p d t < 100")
    case True
    then have "successes [e] = [e]" by (simp add: successes_def e_def)
    moreover have "fst e = clamp_size p t" by (simp add: e_def)
    ultimately show ?thesis using True conf by (simp add: next_results_def)
  next
    case False
    then have "successes [e] = []" by (simp add: successes_def e_def)
    then show ?thesis using False by (simp add: next_results_def)
  qed
  show ?case
  proof (cases "stops h p d t s")
    case True
    then have m: "main_loop h p d t s res = (next_results h p d t res, after_probe p d t)"
      by (subst main_loop_step) simp
    have tr: "search_trace h p d t s = [e]"
      using True by (subst search_trace_step) (simp add: e_def)
    show ?thesis unfolding m tr fst_conv using one .
  next
    case False
    note IH = less.hyps[OF halve_less[OF stops_halve[OF False]]]
    let ?d1 = "after_probe p d t" and ?r1 = "next_results h p d t res"
    let ?t1 = "next_size h p d t s"
    let ?rest = "search_trace h p ?d1 ?t1 (halve s)"
    let ?f = "fst (main_loop h p ?d1 ?t1 (halve s) ?r1)"
    have m: "main_loop h p d t s res = main_loop h p ?d1 ?t1 (halve s) ?r1"
      using False by (subst main_loop_step) simp
    have tr: "search_trace h p d t s = e # ?rest"
      using False by (subst search_trace_step) (simp add: e_def)
    have n: "(successes ?rest = [] \<longrightarrow> ?f = ?r1) \<and>
             (successes ?rest \<noteq> [] \<longrightarrow> records ?f (fst (last (successes ?rest))))"
      by (rule IH)
    have s: "successes (e # ?rest) = successes [e] @ successes ?rest"
      by (simp add: successes_def)
    have b: "successes (e # ?rest) = [] \<longrightarrow> ?f = res"
    proof
      assume "successes (e # ?rest) = []"
      then have z: "successes [e] = []" "successes ?rest = []" using s by simp_all
      have "?f = ?r1" using n z(2) by blast
      also have "?r1 = res" using one z(1) by blast
      finally show "?f = res" .
    qed
    have c: "successes (e # ?rest) \<noteq> [] \<longrightarrow> records ?f (fst (last (successes (e # ?rest))))"
    proof (cases "successes ?rest = []")
      case True
      then have "?f = ?r1" using n by blast
      moreover have "successes (e # ?rest) = successes [e]" using s True by simp
      ultimately show ?thesis using one by simp
    next
      case False
      then have "last (successes (e # ?rest)) = last (successes ?rest)" using s by simp
      then show ?thesis using n False by simp
    qed
    show ?thesis unfolding m tr using b c by blast
  qed
qed

lemma recorded_confirmed: "recorded_mtu (confirmed res T) = T"
  by (simp add: recorded_mtu_def confirmed_def get_int_def)

lemma recorded_next:
  "recorded_mtu (next_results h p d t res) =
     (if next_loss h p d t < 100 then clamp_size p t else recorded_mtu res)"
  by (simp add: next_results_def recorded_confirmed)

lemma halve_pow2:
  assumes "s = 0 \<or> (\<exists>j::nat. s = 2 ^ j)"
  shows "halve s = 0 \<or> (\<exists>j::nat. halve s = 2 ^ j)"
proof (cases "2 \<le> s")
  case False
  then show ?thesis by (simp add: halve_def)
next
  case True
  then obtain j :: nat where j: "s = 2 ^ j" using assms by auto
  then have "j \<noteq> 0" using True by (cases j) simp_all
  then obtain i where "j = Suc i" by (cases j) simp_all
  then have "halve s = 2 ^ i" using True j by (simp add: halve_def)
  then show ?thesis by blast
qed

lemma halve_double:
  assumes "s = 0 \<or> (\<exists>j::nat. s = 2 ^ j)" and "2 \<le> s"
  shows "2 * halve s = s"
proof -
  obtain j :: nat where j: "s = 2 ^ j" using assms by auto
  then have "j \<noteq> 0" using assms(2) by (cases j) simp_all
  then obtain i where "j = Suc i" by (cases j) simp_all
  then show ?thesis using assms(2) j by (simp add: halve_def)
qed

lemma near_up:
  assumes "68 \<le> T" "T \<le> M" "M < p_max_size p" "1 \<le> a" "M - T \<le> 2 * a - 1"
  shows "- a \<le> M - clamp_size p (T + a) \<and> M - clamp_size p (T + a) \<le> a - 1
         \<and> (M - clamp_size p (T + a) = - a \<longrightarrow> T = M)"
  using assms by (auto simp add: clamp_size_def INET_MIN_MTU_SIZE_def)

lemma near_down:
  assumes "68 \<le> M" "T \<le> p_max_size p" "M < T" "1 \<le> a" "- 2 * a \<le> M - T"
  shows "- a \<le> M - clamp_size p (T - a) \<and> M - clamp_size p (T - a) \<le> a - 1
         \<and> (M - clamp_size p (T - a) = - a \<longrightarrow> M - T = - 2 * a)"
  using assms by (auto simp add: clamp_size_def INET_MIN_MTU_SIZE_def)

lemma near_next:
  assumes a: "1 \<le> a" and p2: "a = 0 \<or> (\<exists>j::nat. a = 2 ^ j)"
    and b: "- a \<le> M - clamp_size p t'" "M - clamp_size p t' \<le> a - 1"
      "M - clamp_size p t' = - a \<longrightarrow> L = M"
  shows "near p M L t' a"
proof (cases "2 \<le> a")
  case True
  then have d: "2 * halve a = a" using p2 by (intro halve_double)
  then have "1 \<le> halve a" using True by simp
  then show ?thesis using b d by (simp add: near_def)
next
  case False
  then have "a = 1" using a by simp
  then have "halve a = 0" by (simp add: halve_def)
  then show ?thesis using b \<open>a = 1\<close> by (auto simp add: near_def)
qed

lemma trace_head:
  assumes "\<forall>(T, l)\<in>set (search_trace h p d t s). Q T l"
  shows "Q (clamp_size p t) (next_loss h p d t)"
  using assms by (subst (asm) search_trace_step) simp

lemma trace_rest:
  assumes "\<forall>(T, l)\<in>set (search_trace h p d t s). Q T l" and "\<not> stops h p d t s"
  shows "\<forall>(T, l)\<in>set (search_trace h p (after_probe p d t) (next_size h p d t s) (halve s)). Q T l"
  using assms by (subst (asm) search_trace_step) simp

lemma mono_near:
  assumes "\<forall>(T, l)\<in>set (search_trace h p d t s). l < 100 \<longleftrightarrow> T \<le> M"
    and "halve s = 0 \<or> (\<exists>j::nat. halve s = 2 ^ j)"
    and "near p M (recorded_mtu res) t s"
    and M: "68 \<le> M" "M < p_max_size p"
  shows "recorded_mtu (fst (main_loop h p d t s res)) = M"
  using assms(1-3)
proof (induction "nat s" arbitrary: d t s res rule: less_induct)
  case less
  define T where "T = clamp_size p t"
  define a where "a = halve s"
  define l where "l = next_loss h p d t"
  define L where "L = recorded_mtu res"
  have hd: "l < 100 \<longleftrightarrow> T \<le> M"
    unfolding l_def T_def using less.prems(1) by (rule trace_head)
  have rng: "68 \<le> T \<and> T \<le> p_max_size p"
    using clamp_size_range[of p t] M by (simp add: T_def INET_MIN_MTU_SIZE_def)
  have nr: "if 1 \<le> a then - 2 * a \<le> M - T \<and> M - T \<le> 2 * a - 1 \<and> (M - T = - 2 * a \<longrightarrow> L = M)
            else T = M \<or> (T = M + 1 \<and> L = M)"
    using less.prems(3) unfolding near_def T_def a_def L_def .
  have rec: "recorded_mtu (next_results h p d t res) = (if l < 100 then T else L)"
    by (simp add: recorded_next l_def T_def L_def)
  show ?case
  proof (cases "stops h p d t s")
    case True
    have "\<not> (l < 100 \<and> T = p_max_size p)" using hd M by auto
    then have "a < 1" using True unfolding stops_def l_def T_def a_def by blast
    then have "T = M \<or> (T = M + 1 \<and> L = M)" using nr by simp
    then have "(if l < 100 then T else L) = M" using hd by auto
    then show ?thesis using True rec by (subst main_loop_step) simp
  next
    case False
    then have a1: "1 \<le> a" using stops_halve[OF False] by (simp add: a_def)
    have p2: "a = 0 \<or> (\<exists>j::nat. a = 2 ^ j)" using less.prems(2) by (simp add: a_def)
    have b: "- 2 * a \<le> M - T" "M - T \<le> 2 * a - 1" "M - T = - 2 * a \<longrightarrow> L = M"
      using nr a1 by simp_all
    let ?t1 = "next_size h p d t s" and ?r1 = "next_results h p d t res"
    have t1: "?t1 = (if l < 100 then T + a else T - a)"
      by (simp add: next_size_def l_def T_def a_def)
    have nb: "- a \<le> M - clamp_size p ?t1 \<and> M - clamp_size p ?t1 \<le> a - 1
         \<and> (M - clamp_size p ?t1 = - a \<longrightarrow> recorded_mtu ?r1 = M)"
    proof (cases "l < 100")
      case True
      then have "T \<le> M" using hd by simp
      from near_up[OF conjunct1[OF rng] this M(2) a1 b(2)] True show ?thesis
        unfolding t1 rec by simp
    next
      case False
      then have "M < T" using hd by simp
      from near_down[OF M(1) conjunct2[OF rng] this a1 b(1)] False b(3) show ?thesis
        unfolding t1 rec by simp
    qed
    then have n1: "near p M (recorded_mtu ?r1) ?t1 a"
      using a1 p2 by (intro near_next) simp_all
    have "recorded_mtu (fst (main_loop h p (after_probe p d t) ?t1 (halve s) ?r1)) = M"
    proof (rule less.hyps[OF halve_less[OF stops_halve[OF False]]])
      show "\<forall>(T, l)\<in>set (search_trace h p (after_probe p d t) ?t1 (halve s)). (l < 100) = (T \<le> M)"
        using less.prems(1) False by (rule trace_rest)
      show "halve (halve s) = 0 \<or> (\<exists>j::nat. halve (halve s) = 2 ^ j)"
        using less.prems(2) by (rule halve_pow2)
      show "near p M (recorded_mtu ?r1) ?t1 (halve s)" using n1 by (simp add: a_def)
    qed
    then show ?thesis using False by (subst main_loop_step) simp
  qed
qed

lemma mono_desc:
  assumes "\<forall>(T, l)\<in>set (search_trace h p d t s). l < 100 \<longleftrightarrow> T \<le> M"
    and "halve s = 0 \<or> (\<exists>j::nat. halve s = 2 ^ j)"
    and "1 \<le> halve s \<longrightarrow> M - clamp_size p t \<le> 2 * halve s - 1"
    and M: "68 \<le> M" "M < p_max_size p"
  shows "\<forall>(T, l)\<in>set (search_trace h p d t s).
           l < 100 \<longrightarrow> T \<le> recorded_mtu (fst (main_loop h p d t s res))"
  using assms(1-3)
proof (induction "nat s" arbitrary: d t s res rule: less_induct)
  case less
  define T where "T = clamp_size p t"
  define a where "a = halve s"
  define l where "l = next_loss h p d t"
  have hd: "l < 100 \<longleftrightarrow> T \<le> M"
    unfolding l_def T_def using less.prems(1) by (rule trace_head)
  have rng: "68 \<le> T \<and> T \<le> p_max_size p"
    using clamp_size_range[of p t] M by (simp add: T_def INET_MIN_MTU_SIZE_def)
  have rec: "recorded_mtu (next_results h p d t res) = (if l < 100 then T else recorded_mtu res)"
    by (simp add: recorded_next l_def T_def)
  show ?case
  proof (cases "stops h p d t s")
    case True
    have tr: "search_trace h p d t s = [(T, l)]"
      using True by (subst search_trace_step) (simp add: T_def l_def)
    have m: "main_loop h p d t s res = (next_results h p d t res, after_probe p d t)"
      using True by (subst main_loop_step) simp
    show ?thesis unfolding tr m fst_conv rec by simp
  next
    case False
    then have a1: "1 \<le> a" using stops_halve[OF False] by (simp add: a_def)
    have p2: "a = 0 \<or> (\<exists>j::nat. a = 2 ^ j)" using less.prems(2) by (simp add: a_def)
    have b: "M - T \<le> 2 * a - 1" using less.prems(3) a1 by (simp add: a_def T_def)
    let ?d1 = "after_probe p d t"
    let ?t1 = "next_size h p d t s" and ?r1 = "next_results h p d t res"
    let ?rest = "search_trace h p ?d1 ?t1 (halve s)"
    have t1: "?t1 = (if l < 100 then T + a else T - a)"
      by (simp add: next_size_def l_def T_def a_def)
    have tr: "search_trace h p d t s = (T, l) # ?rest"
      using False by (subst search_trace_step) (simp add: T_def l_def)
    have m: "main_loop h p d t s res = main_loop h p ?d1 ?t1 (halve s) ?r1"
      using False by (subst main_loop_step) simp
    have rest: "\<forall>(T, l)\<in>set ?rest. (l < 100) = (T \<le> M)"
      using less.prems(1) False by (rule trace_rest)
    have pp: "halve (halve s) = 0 \<or> (\<exists>j::nat. halve (halve s) = 2 ^ j)"
      using less.prems(2) by (rule halve_pow2)
    show ?thesis
    proof (cases "l < 100")
      case True
      then have le: "T \<le> M" using hd by simp
      from near_up[OF conjunct1[OF rng] le M(2) a1 b]
      have "- a \<le> M - clamp_size p ?t1 \<and> M - clamp_size p ?t1 \<le> a - 1
         \<and> (M - clamp_size p ?t1 = - a \<longrightarrow> recorded_mtu ?r1 = M)"
        unfolding t1 rec using True by simp
      then have "near p M (recorded_mtu ?r1) ?t1 a"
        using a1 p2 by (intro near_next) simp_all
      then have n1: "near p M (recorded_mtu ?r1) ?t1 (halve s)" by (simp add: a_def)
      have f: "recorded_mtu (fst (main_loop h p ?d1 ?t1 (halve s) ?r1)) = M"
        using rest pp n1 M by (rule mono_near)
      have "\<forall>(T, l)\<in>set (search_trace h p d t s). l < 100 \<longrightarrow> T \<le> M"
        using less.prems(1) by auto
      then show ?thesis unfolding m f .
    next
      case False
      then have gt: "M < T" using hd by simp
      have d1: "1 \<le> halve (halve s) \<longrightarrow> M - clamp_size p ?t1 \<le> 2 * halve (halve s) - 1"
      proof
        assume "1 \<le> halve (halve s)"
        then have "2 \<le> a" by (auto simp add: a_def halve_def split: if_splits)
        then have "2 * halve a = a" using p2 by (intro halve_double)
        moreover have "T - a \<le> clamp_size p (T - a)"
          using rng a1 by (simp add: clamp_size_def)
        ultimately show "M - clamp_size p ?t1 \<le> 2 * halve (halve s) - 1"
          unfolding t1 using False gt by (simp add: a_def)
      qed
      have "\<forall>(T, l)\<in>set ?rest. l < 100 \<longrightarrow> T \<le> recorded_mtu (fst (main_loop h p ?d1 ?t1 (halve s) ?r1))"
        by (rule less.hyps[OF halve_less[OF stops_halve[OF \<open>\<not> stops h p d t s\<close>]] rest pp d1])
      then show ?thesis unfolding tr m using False by simp
    qed
  qed
qed

lemma main_trace_invalid:
  "\<not> (p_max_range p \<in> set MAX_SIZE_CHOICES \<and> 68 \<le> p_max_size p \<and> p_max_size p \<le> 65496)
     \<Longrightarrow> main_trace h d p = []"
  by (auto simp add: main_trace_def Let_def INET_MIN_MTU_SIZE_def INET_MAX_MTU_SIZE_def)

lemma main_trace_baseline_lost:
  assumes "reported_loss h (p_count p) (reply d (length (sent d)) (baseline_cmd p)) = 100"
  shows "main_trace h d p = []"
  using assms
  by (simp add: main_trace_def Let_def run_ping_eq packet_loss_summary baseline_cmd_def)

lemma main_trace_search:
  assumes "p_max_range p \<in> set MAX_SIZE_CHOICES"
    and "68 \<le> p_max_size p" "p_max_size p \<le> 65496"
    and "reported_loss h (p_count p) (reply d (length (sent d)) (baseline_cmd p)) \<noteq> 100"
  shows "main_trace h d p =
     search_trace h p (d\<lparr>sent := sent d @ [baseline_cmd p]\<rparr>) (p_max_size p) (p_max_range p)"
  using assms
  by (simp add: main_trace_def Let_def run_ping_eq packet_loss_summary baseline_cmd_def
      INET_MIN_MTU_SIZE_def INET_MAX_MTU_SIZE_def)

lemma inet_mtu_of_simps:
  "inet_mtu_of (Exit_json res) = recorded_mtu res"
  "inet_mtu_of (Fail_json res) = recorded_mtu res"
  "inet_mtu_of (Argument_error a) = 0"
  "recorded_mtu Map.empty = 0"
  "recorded_mtu (res(''msg'' \<mapsto> m)) = recorded_mtu res"
  by (simp_all add: inet_mtu_of_def result_dict_def recorded_mtu_def get_int_def)

lemma recorded_initial: "recorded_mtu (initial_results p) = 0"
  by (simp add: recorded_mtu_def get_int_def initial_results_def)

lemma recorded_records: "records res T \<Longrightarrow> recorded_mtu res = T"
  by (simp add: recorded_mtu_def records_get)

lemma main_inet_mtu_search:
  assumes "p_max_range p \<in> set MAX_SIZE_CHOICES"
    and "68 \<le> p_max_size p" "p_max_size p \<le> 65496"
    and "reported_loss h (p_count p) (reply d (length (sent d)) (baseline_cmd p)) \<noteq> 100"
  shows "inet_mtu_of (fst (main h d p)) =
     recorded_mtu (fst (main_loop h p (d\<lparr>sent := sent d @ [baseline_cmd p]\<rparr>) (p_max_size p)
        (p_max_range p) (initial_results p)))"
  unfolding main_search[OF assms] fst_conv
  by (simp add: inet_mtu_of_simps)

lemma main_inet_mtu_none:
  assumes "\<not> (p_max_range p \<in> set MAX_SIZE_CHOICES \<and> 68 \<le> p_max_size p \<and> p_max_size p \<le> 65496)
     \<or> reported_loss h (p_count p) (reply d (length (sent d)) (baseline_cmd p)) = 100"
  shows "inet_mtu_of (fst (main h d p)) = 0"
proof (cases "p_max_range p \<in> set MAX_SIZE_CHOICES \<and> 68 \<le> p_max_size p \<and> p_max_size p \<le> 65496")
  case False
  then show ?thesis
    by (cases "p_max_range p \<in> set MAX_SIZE_CHOICES")
       (auto simp add: main_invalid_range main_invalid_size inet_mtu_of_simps)
next
  case True
  then have v: "p_max_range p \<in> set MAX_SIZE_CHOICES" "68 \<le> p_max_size p"
    "p_max_size p \<le> 65496" by simp_all
  have l: "reported_loss h (p_count p) (reply d (length (sent d)) (baseline_cmd p)) = 100"
    using assms True by blast
  show ?thesis unfolding main_baseline_lost[OF v l] fst_conv
    by (simp add: inet_mtu_of_simps recorded_initial)
qed

lemma choices_pow2:
  assumes "s \<in> set MAX_SIZE_CHOICES"
  shows "s = 0 \<or> (\<exists>j::nat. s = 2 ^ j)"
  using assms unfolding choices_iff by blast

lemma main_last_success:
  "inet_mtu_of (fst (main h d p)) =
     (if successes (main_trace h d p) = [] then 0
      else fst (last (successes (main_trace h d p))))"
proof (cases "(p_max_range p \<in> set MAX_SIZE_CHOICES \<and> 68 \<le> p_max_size p \<and> p_max_size p \<le> 65496)
     \<and> reported_loss h (p_count p) (reply d (length (sent d)) (baseline_cmd p)) \<noteq> 100")
  case False
  then have "main_trace h d p = []"
    using main_trace_invalid[of p h d] main_trace_baseline_lost[of h p d] by blast
  moreover have "inet_mtu_of (fst (main h d p)) = 0"
    using False by (intro main_inet_mtu_none) blast
  ultimately show ?thesis by (simp add: successes_def)
next
  case True
  then have v: "p_max_range p \<in> set MAX_SIZE_CHOICES" "68 \<le> p_max_size p"
    "p_max_size p \<le> 65496"
    and b: "reported_loss h (p_count p) (reply d (length (sent d)) (baseline_cmd p)) \<noteq> 100"
    by simp_all
  let ?d0 = "d\<lparr>sent := sent d @ [baseline_cmd p]\<rparr>"
  let ?tr = "search_trace h p ?d0 (p_max_size p) (p_max_range p)"
  let ?L = "main_loop h p ?d0 (p_max_size p) (p_max_range p) (initial_results p)"
  note lt = main_loop_last_trace[of h p ?d0 "p_max_size p" "p_max_range p" "initial_results p"]
  have "recorded_mtu (fst ?L) = (if successes ?tr = [] then 0 else fst (last (successes ?tr)))"
  proof (cases "successes ?tr = []")
    case True
    then have "fst ?L = initial_results p" using lt by blast
    then show ?thesis using True by (simp add: recorded_initial)
  next
    case False
    then have "records (fst ?L) (fst (last (successes ?tr)))" using lt by blast
    then show ?thesis using False by (simp add: recorded_records)
  qed
  then show ?thesis
    unfolding main_inet_mtu_search[OF v b] main_trace_search[OF v b] .
qed

lemma main_fixed_mtu:
  assumes "\<forall>(T, l)\<in>set (main_trace h d p). l < 100 \<longleftrightarrow> T \<le> M"
  shows "\<forall>(T, l)\<in>set (main_trace h d p). l < 100 \<longrightarrow> T \<le> inet_mtu_of (fst (main h d p))"
proof (cases "(p_max_range p \<in> set MAX_SIZE_CHOICES \<and> 68 \<le> p_max_size p \<and> p_max_size p \<le> 65496)
     \<and> reported_loss h (p_count p) (reply d (length (sent d)) (baseline_cmd p)) \<noteq> 100")
  case False
  then have "main_trace h d p = []"
    using main_trace_invalid[of p h d] main_trace_baseline_lost[of h p d] by blast
  then show ?thesis by simp
next
  case True
  then have v: "p_max_range p \<in> set MAX_SIZE_CHOICES" "68 \<le> p_max_size p"
    "p_max_size p \<le> 65496"
    and b: "reported_loss h (p_count p) (reply d (length (sent d)) (baseline_cmd p)) \<noteq> 100"
    by simp_all
  let ?d0 = "d\<lparr>sent := sent d @ [baseline_cmd p]\<rparr>"
  let ?tr = "search_trace h p ?d0 (p_max_size p) (p_max_range p)"
  let ?L = "main_loop h p ?d0 (p_max_size p) (p_max_range p) (initial_results p)"
  have hyp: "\<forall>(T, l)\<in>set ?tr. l < 100 \<longleftrightarrow> T \<le> M"
    using assms unfolding main_trace_search[OF v b] .
  have rng: "\<forall>(T, l)\<in>set ?tr. 68 \<le> T \<and> T \<le> p_max_size p"
    using search_trace_range[of p h ?d0 "p_max_size p" "p_max_range p"] v(2)
    by (simp add: INET_MIN_MTU_SIZE_def)
  have cl: "clamp_size p (p_max_size p) = p_max_size p" using v(2) by (rule clamp_size_max)
  have hd: "next_loss h p ?d0 (p_max_size p) < 100 \<longleftrightarrow> p_max_size p \<le> M"
    using trace_head[OF hyp] cl by simp
  have "\<forall>(T, l)\<in>set ?tr. l < 100 \<longrightarrow> T \<le> recorded_mtu (fst ?L)"
  proof (cases "p_max_size p \<le> M")
    case True
    then have st: "stops h p ?d0 (p_max_size p) (p_max_range p)"
      using hd cl by (simp add: stops_def)
    have "recorded_mtu (fst ?L) = p_max_size p"
      using st hd True cl by (subst main_loop_step) (simp add: recorded_next)
    then show ?thesis using rng by auto
  next
    case False
    show ?thesis
    proof (cases "68 \<le> M")
      case False
      have "\<not> l < 100" if "(T, l) \<in> set ?tr" for T l
      proof -
        have "68 \<le> T" using rng that by blast
        moreover have "l < 100 \<longleftrightarrow> T \<le> M" using hyp that by blast
        ultimately show ?thesis using False by simp
      qed
      then show ?thesis by blast
    next
      case True
      have p2: "halve (p_max_range p) = 0 \<or> (\<exists>j::nat. halve (p_max_range p) = 2 ^ j)"
        using choices_pow2[OF v(1)] by (rule halve_pow2)
      have dinv: "1 \<le> halve (p_max_range p) \<longrightarrow>
          M - clamp_size p (p_max_size p) \<le> 2 * halve (p_max_range p) - 1"
        using \<open>\<not> p_max_size p \<le> M\<close> cl by simp
      have lt: "M < p_max_size p" using \<open>\<not> p_max_size p \<le> M\<close> by simp
      show ?thesis
        using hyp p2 dinv True lt by (rule mono_desc)
    qed
  qed
  then show ?thesis
    unfolding main_inet_mtu_search[OF v b] main_trace_search[OF v b] .
qed

lemma c1_trace:
  "main_trace demo_parsers (new_device c1_reply) c1_params =
     [(77, 100), (68, 0), (76, 0), (77, 100), (75, 100), (74, 0)]"
  by code_simp

lemma c1_fixed_trace:
  "main_trace demo_parsers (new_device c1_fixed_mtu) c1_params =
     [(77, 100), (68, 0), (76, 0), (77, 100), (75, 0), (76, 0)]"
  by code_simp

lemma main_log_trace:
  "tl (probe_log h p (snd (main h (new_device r) p))) =
     map (\<lambda>(T, l). (probe_cmd p (str_int (T - 28)) True, l)) (main_trace h (new_device r) p)"
proof (cases "(p_max_range p \<in> set MAX_SIZE_CHOICES \<and> 68 \<le> p_max_size p \<and> p_max_size p \<le> 65496)
     \<and> reported_loss h (p_count p)
          (reply (new_device r) (length (sent (new_device r))) (baseline_cmd p)) \<noteq> 100")
  case False
  then have tr: "main_trace h (new_device r) p = []"
    using main_trace_invalid[of p h "new_device r"]
      main_trace_baseline_lost[of h p "new_device r"] by blast
  have "length (sent (snd (main h (new_device r) p))) \<le> 1"
  proof (cases "p_max_range p \<in> set MAX_SIZE_CHOICES \<and> 68 \<le> p_max_size p \<and> p_max_size p \<le> 65496")
    case False
    then show ?thesis by (simp add: main_sent_invalid new_device_simps)
  next
    case True
    then have v: "p_max_range p \<in> set MAX_SIZE_CHOICES" "68 \<le> p_max_size p"
      "p_max_size p \<le> 65496" by simp_all
    have l: "reported_loss h (p_count p)
          (reply (new_device r) (length (sent (new_device r))) (baseline_cmd p)) = 100"
      using True \<open>\<not> _\<close> by blast
    show ?thesis unfolding main_baseline_lost[OF v l] by (simp add: new_device_simps)
  qed
  then have "length (probe_log h p (snd (main h (new_device r) p))) \<le> 1"
    by (simp add: probe_log_def)
  then have "tl (probe_log h p (snd (main h (new_device r) p))) = []"
    by (cases "probe_log h p (snd (main h (new_device r) p))") simp_all
  then show ?thesis using tr by simp
next
  case True
  then have v: "p_max_range p \<in> set MAX_SIZE_CHOICES" "68 \<le> p_max_size p"
    "p_max_size p \<le> 65496"
    and b: "reported_loss h (p_count p)
          (reply (new_device r) (length (sent (new_device r))) (baseline_cmd p)) \<noteq> 100"
    by simp_all
  let ?d0 = "(new_device r)\<lparr>sent := sent (new_device r) @ [baseline_cmd p]\<rparr>"
  have log0: "length (probe_log h p ?d0) = 1"
    by (simp add: probe_log_def new_device_simps)
  have "tl (probe_log h p ?d0 @ xs) = xs" for xs
    using log0 by (cases "probe_log h p ?d0") simp_all
  then show ?thesis
    unfolding main_search[OF v b] snd_conv main_trace_search[OF v b] main_loop_log_trace
    by (simp add: header_size)
qed

lemma sent_probe_log: "map fst (probe_log h p d) = sent d"
  by (simp add: probe_log_def map_nth comp_def)

lemma main_first_baseline:
  "sent (snd (main h (new_device r) p)) \<noteq> []
     \<Longrightarrow> hd (sent (snd (main h (new_device r) p))) = probe_cmd p ''40'' False"
  using main_sent_shape[of h r p] by (auto simp add: baseline_cmd_eq)

section \<open>The claims\<close>

text \<open>
  Claim C1, as the code has it. \<open>inet_mtu\<close> is written only after a search probe with a
  loss below 100, and with the size of that probe: a run ends with the size of the last
  successful round of the search, and with 0 when no round succeeded. On a path with a
  fixed MTU, where a round succeeds exactly when its size is at most \<open>mtu\<close>, the run ends
  with an \<open>inet_mtu\<close> that is at least the size of every successful round.
\<close>

theorem C1_fixed_mtu_path:
  "inet_mtu_of (fst (main h (new_device r) p)) =
     (if successes (main_trace h (new_device r) p) = [] then 0
      else fst (last (successes (main_trace h (new_device r) p))))
   \<and> ((\<forall>(test_size, loss)\<in>set (main_trace h (new_device r) p). loss < 100 \<longleftrightarrow> test_size \<le> mtu)
       \<longrightarrow> (\<forall>(test_size, loss)\<in>set (main_trace h (new_device r) p).
              loss < 100 \<longrightarrow> test_size \<le> inet_mtu_of (fst (main h (new_device r) p))))"
  using main_last_success[of h "new_device r" p] main_fixed_mtu[of h "new_device r" p mtu]
  by blast

theorem C1_fixed_mtu_path_witness:
  "inet_mtu_of (fst (main demo_parsers (new_device c1_fixed_mtu) c1_params)) = 76
   \<and> list_all (\<lambda>(test_size, loss).
         loss < 100 \<longrightarrow>
         test_size \<le> inet_mtu_of (fst (main demo_parsers (new_device c1_fixed_mtu) c1_params)))
       [(77, 100), (68, 0), (76, 0), (77, 100), (75, 0), (76, 0::int)]"
proof -
  note c = C1_fixed_mtu_path[of demo_parsers c1_fixed_mtu c1_params 76, unfolded c1_fixed_trace]
  have m: "\<forall>(test_size, loss)\<in>set [(77, 100), (68, 0), (76, 0), (77, 100), (75, 0), (76::int, 0::int)].
             loss < 100 \<longleftrightarrow> test_size \<le> 76" by simp
  have e: "inet_mtu_of (fst (main demo_parsers (new_device c1_fixed_mtu) c1_params)) = 76"
    using c by (simp add: successes_def)
  have "\<forall>(test_size, loss)\<in>set [(77, 100), (68, 0), (76, 0), (77, 100), (75, 0), (76::int, 0::int)].
          loss < 100 \<longrightarrow> test_size \<le> inet_mtu_of (fst (main demo_parsers (new_device c1_fixed_mtu) c1_params))"
    using c m by blast
  then show ?thesis using e by (simp add: list_all_iff)
qed

text \<open>
  Claim C1 as the spec states it, for every sequence of probe outcomes, fails. With
  \<open>max_size = 77\<close> and \<open>max_range = 32\<close> the search probes 77, 68, 76, 77, 75 and 74
  bytes: the lower clamp at 68 takes the sizes off the grid of \<open>max_size\<close>, the upper clamp
  then brings the search back to 77 after the success at 76, and the following steps go
  below 76. On a path that passes 76 bytes but loses 75, the probe with index 3 in the log
  (76 bytes) reports no loss, and the run ends with \<open>inet_mtu = 74\<close>.
\<close>

theorem C1_later_smaller_success:
  "c_size (fst (probe_log demo_parsers c1_params
        (snd (main demo_parsers (new_device c1_reply) c1_params)) ! 3)) = str_int (76 - 28)
   \<and> snd (probe_log demo_parsers c1_params
        (snd (main demo_parsers (new_device c1_reply) c1_params)) ! 3) < 100
   \<and> inet_mtu_of (fst (main demo_parsers (new_device c1_reply) c1_params)) = 74"
  by code_simp

text \<open>
  Claim C2. When the arguments are valid and every reply reports a loss below 100,
  \<open>main\<close> stops after the first probe of the search: it leaves through \<open>exit_json\<close> with
  \<open>failed = False\<close> and \<open>inet_mtu = max_size\<close>, having sent the baseline command and
  one probe of \<open>max_size\<close> bytes with the DF bit.
\<close>

theorem C2_all_succeed:
  assumes "p_max_range p \<in> set MAX_SIZE_CHOICES"
    and "68 \<le> p_max_size p" and "p_max_size p \<le> 65496"
    and "\<forall>k c. reported_loss h (p_count p) (r k c) < 100"
  shows "main h (new_device r) p =
     (Exit_json [''changed'' \<mapsto> VBool False, ''failed'' \<mapsto> VBool False,
                 ''inet_mtu'' \<mapsto> VInt (p_max_size p), ''dest'' \<mapsto> VStr (p_dest p)],
      \<lparr>reply = r,
       sent = [probe_cmd p ''40'' False, probe_cmd p (str_int (p_max_size p - 28)) True]\<rparr>)"
  using assms by (rule main_all_succeed)

theorem C2_all_succeed_witness:
  "fst (main demo_parsers (new_device (\<lambda>k c. demo_ok)) demo_params) =
     Exit_json [''changed'' \<mapsto> VBool False, ''failed'' \<mapsto> VBool False,
                ''inet_mtu'' \<mapsto> VInt 1600, ''dest'' \<mapsto> VStr ''192.68.1.1'']"
  using C2_all_succeed[of demo_params demo_parsers "\<lambda>k c. demo_ok"]
  by (simp add: demo_valid demo_loss_ok) (simp add: demo_params_def)

text \<open>
  Claim C3. \<open>main\<close> is a total function: \<open>main_loop\<close> was accepted with the measure
  \<open>nat step\<close>, which the halving decreases in every round that does not leave the loop.
  For \<open>max_range\<close> a power of two, a run sends at most \<open>\<lceil>log 2 max_range\<rceil> + 2\<close>
  commands, whatever the device answers. (Outside the claim's bounds on \<open>max_size\<close> and
  \<open>max_range\<close> the run sends nothing, so the bound needs no further hypothesis.)
\<close>

theorem C3_probe_bound:
  assumes "p_max_range p = 2 ^ k"
  shows "int (length (sent (snd (main h (new_device r) p))))
           \<le> \<lceil>log 2 (real_of_int (p_max_range p))\<rceil> + 2"
proof -
  let ?n = "length (sent (snd (main h (new_device r) p)))"
  have lg: "\<lceil>log 2 (real_of_int (p_max_range p))\<rceil> = int k"
    unfolding assms by (rule log2_power)
  have "?n \<le> k + 2"
  proof (cases "p_max_range p \<in> set MAX_SIZE_CHOICES \<and> 68 \<le> p_max_size p \<and> p_max_size p \<le> 65496")
    case False
    then show ?thesis by (simp add: main_sent_invalid new_device_simps)
  next
    case True
    then have v: "p_max_range p \<in> set MAX_SIZE_CHOICES" "68 \<le> p_max_size p"
      "p_max_size p \<le> 65496" by simp_all
    let ?d0 = "(new_device r)\<lparr>sent := sent (new_device r) @ [baseline_cmd p]\<rparr>"
    show ?thesis
    proof (cases "reported_loss h (p_count p)
          (reply (new_device r) (length (sent (new_device r))) (baseline_cmd p)) = 100")
      case True
      show ?thesis unfolding main_baseline_lost[OF v True] by (simp add: new_device_simps)
    next
      case False
      have "p_max_range p < 2 ^ Suc k" unfolding assms by simp
      then have "length (sent (snd (main_loop h p ?d0 (p_max_size p) (p_max_range p)
                    (initial_results p)))) \<le> length (sent ?d0) + Suc k"
        by (rule main_loop_count)
      then show ?thesis unfolding main_search[OF v False] snd_conv
        by (simp add: new_device_simps)
    qed
  qed
  then show ?thesis unfolding lg by simp
qed

theorem C3_probe_bound_witness:
  "int (length (sent (snd (main demo_parsers (new_device (\<lambda>k c. if k = 0 then demo_ok else demo_lost))
      demo_params)))) \<le> \<lceil>log 2 (real_of_int 512)\<rceil> + 2"
  using C3_probe_bound[of demo_params 9 demo_parsers "\<lambda>k c. if k = 0 then demo_ok else demo_lost"]
  by (simp add: demo_params_def)

text \<open>
  Claim C4. When the arguments are valid and the baseline probe (payload \<open>40\<close>, DF
  unset) reports a loss of 100, \<open>main\<close> leaves through \<open>exit_json\<close> with
  \<open>failed = True\<close>, \<open>inet_mtu = 0\<close> and the message "Basic connectivity to <dest>
  failed.", and the baseline command is the only one sent to the device.
\<close>

theorem C4_baseline_lost:
  assumes "p_max_range p \<in> set MAX_SIZE_CHOICES"
    and "68 \<le> p_max_size p" and "p_max_size p \<le> 65496"
    and "reported_loss h (p_count p) (r 0 (probe_cmd p ''40'' False)) = 100"
  shows "main h (new_device r) p =
     (Exit_json [''changed'' \<mapsto> VBool False, ''failed'' \<mapsto> VBool True,
                 ''inet_mtu'' \<mapsto> VInt 0, ''dest'' \<mapsto> VStr (p_dest p),
                 ''msg'' \<mapsto> VStr (''Basic connectivity to '' @ p_dest p @ '' failed.'')],
      \<lparr>reply = r, sent = [probe_cmd p ''40'' False]\<rparr>)"
proof -
  have "reported_loss h (p_count p)
          (reply (new_device r) (length (sent (new_device r))) (baseline_cmd p)) = 100"
    using assms(4) by (simp add: new_device_simps baseline_cmd_eq)
  from main_baseline_lost[OF assms(1-3) this]
  show ?thesis by (simp add: new_device_simps baseline_cmd_eq initial_results_def)
qed

theorem C4_baseline_lost_witness:
  "main demo_parsers (new_device (\<lambda>k c. demo_lost)) demo_params =
     (Exit_json [''changed'' \<mapsto> VBool False, ''failed'' \<mapsto> VBool True,
                 ''inet_mtu'' \<mapsto> VInt 0, ''dest'' \<mapsto> VStr ''192.68.1.1'',
                 ''msg'' \<mapsto> VStr ''Basic connectivity to 192.68.1.1 failed.''],
      \<lparr>reply = (\<lambda>k c. demo_lost),
       sent = [\<lparr>c_dest = ''192.68.1.1'', c_count = 5, c_size = ''40'', c_interval = None,
                c_source = Some ''192.168.1.2'', c_ttl = None,
                c_interface = Some ''ge-0/0/0.0'', c_df_bit = False, c_rapid = True\<rparr>]\<rparr>)"
  using C4_baseline_lost[of demo_params demo_parsers "\<lambda>k c. demo_lost"]
  by (simp add: demo_valid demo_loss_lost)
     (simp add: demo_params_def probe_cmd_def build_ping_def)

text \<open>
  Claim C5. When the arguments are valid, the baseline probe succeeds and every later
  reply reports a loss of 100 (or more), \<open>main\<close> leaves through \<open>fail_json\<close> with
  \<open>inet_mtu = 0\<close>, \<open>failed = True\<close> and the message that names \<open>dest\<close>, the minimum
  tested size \<open>max 68 (max_size - max_range + 1)\<close>, \<open>max_size\<close> and \<open>max_range\<close>, and
  contains "less than the minimum tested size".
\<close>

theorem C5_all_lost:
  assumes "p_max_range p \<in> set MAX_SIZE_CHOICES"
    and "68 \<le> p_max_size p" and "p_max_size p \<le> 65496"
    and "reported_loss h (p_count p) (r 0 (probe_cmd p ''40'' False)) < 100"
    and "\<forall>k c. 1 \<le> k \<longrightarrow> 100 \<le> reported_loss h (p_count p) (r k c)"
  shows "fst (main h (new_device r) p) =
     Fail_json [''changed'' \<mapsto> VBool False, ''failed'' \<mapsto> VBool True,
                ''inet_mtu'' \<mapsto> VInt 0, ''dest'' \<mapsto> VStr (p_dest p),
                ''msg'' \<mapsto> VStr (''The MTU of the path to '' @ p_dest p
                  @ '' is less than the minimum tested size(''
                  @ str_int (max 68 (p_max_size p - p_max_range p + 1))
                  @ ''). Try decreasing max_size('' @ str_int (p_max_size p)
                  @ '') or increasing max_range('' @ str_int (p_max_range p) @ '').'')]"
proof -
  let ?d0 = "(new_device r)\<lparr>sent := sent (new_device r) @ [baseline_cmd p]\<rparr>"
  have l0: "reported_loss h (p_count p)
          (reply (new_device r) (length (sent (new_device r))) (baseline_cmd p)) \<noteq> 100"
    using assms(4) by (simp add: new_device_simps baseline_cmd_eq)
  have "\<forall>k c. length (sent ?d0) \<le> k \<longrightarrow> \<not> reported_loss h (p_count p) (reply ?d0 k c) < 100"
    using assms(5) by (simp add: new_device_simps not_less)
  then have loop: "fst (main_loop h p ?d0 (p_max_size p) (p_max_range p) (initial_results p))
      = initial_results p"
    by (rule main_loop_all_lost)
  have g: "get_int (initial_results p) ''inet_mtu'' 0 = 0"
    by (simp add: get_int_def initial_results_def)
  have "fst (main h (new_device r) p) =
      Fail_json ((initial_results p)(''msg'' \<mapsto> VStr (too_small_msg p)))"
    unfolding main_search[OF assms(1-3) l0] fst_conv loop using g by simp
  then show ?thesis
    by (simp add: initial_results_def too_small_msg_def min_test_size_eq)
qed

theorem C5_all_lost_witness:
  "fst (main demo_parsers (new_device (\<lambda>k c. if k = 0 then demo_ok else demo_lost)) demo_params) =
     Fail_json [''changed'' \<mapsto> VBool False, ''failed'' \<mapsto> VBool True,
                ''inet_mtu'' \<mapsto> VInt 0, ''dest'' \<mapsto> VStr ''192.68.1.1'',
                ''msg'' \<mapsto> VStr (''The MTU of the path to 192.68.1.1 is less than the minimum tested size(1089). Try decreasing max_size(1600) or increasing max_range(512).'')]"
  using C5_all_lost[of demo_params demo_parsers "\<lambda>k c. if k = 0 then demo_ok else demo_lost"]
  by (simp add: demo_valid demo_loss_ok demo_loss_lost)
     (simp add: demo_params_def str_int_def digits.simps digit_char_def)

text \<open>
  Claim C6. The probes after the first one are those of the rounds of the search, in
  order: each is the command with the DF bit whose payload size is \<open>test_size - (20 + 8)\<close>
  for the \<open>test_size\<close> of its round, with the loss of that round as its answer. Every
  \<open>test_size\<close> lies between 68 and \<open>max_size\<close>, the first one is \<open>max_size\<close>, and the first
  command of a run is the baseline probe.
\<close>

theorem C6_probe_sizes:
  "tl (probe_log h p (snd (main h (new_device r) p))) =
     map (\<lambda>(test_size, loss). (probe_cmd p (str_int (test_size - (20 + 8))) True, loss))
       (main_trace h (new_device r) p)
   \<and> (\<forall>(test_size, loss)\<in>set (main_trace h (new_device r) p).
         68 \<le> test_size \<and> test_size \<le> p_max_size p)
   \<and> (main_trace h (new_device r) p \<noteq> []
        \<longrightarrow> fst (hd (main_trace h (new_device r) p)) = p_max_size p)
   \<and> (sent (snd (main h (new_device r) p)) \<noteq> []
        \<longrightarrow> hd (sent (snd (main h (new_device r) p))) = probe_cmd p ''40'' False)"
proof (intro conjI)
  show "tl (probe_log h p (snd (main h (new_device r) p))) =
     map (\<lambda>(test_size, loss). (probe_cmd p (str_int (test_size - (20 + 8))) True, loss))
       (main_trace h (new_device r) p)"
    using main_log_trace[of h p r] by simp
  show "sent (snd (main h (new_device r) p)) \<noteq> []
        \<longrightarrow> hd (sent (snd (main h (new_device r) p))) = probe_cmd p ''40'' False"
    using main_first_baseline by blast
  have c: "(p_max_range p \<in> set MAX_SIZE_CHOICES \<and> 68 \<le> p_max_size p \<and> p_max_size p \<le> 65496)
     \<and> reported_loss h (p_count p)
          (reply (new_device r) (length (sent (new_device r))) (baseline_cmd p)) \<noteq> 100"
    if "main_trace h (new_device r) p \<noteq> []"
    using that main_trace_invalid[of p h "new_device r"]
      main_trace_baseline_lost[of h p "new_device r"] by blast
  show "\<forall>(test_size, loss)\<in>set (main_trace h (new_device r) p).
         68 \<le> test_size \<and> test_size \<le> p_max_size p"
  proof (cases "main_trace h (new_device r) p = []")
    case True
    then show ?thesis by simp
  next
    case False
    from c[OF False] have v: "p_max_range p \<in> set MAX_SIZE_CHOICES" "68 \<le> p_max_size p"
      "p_max_size p \<le> 65496"
      and b: "reported_loss h (p_count p)
          (reply (new_device r) (length (sent (new_device r))) (baseline_cmd p)) \<noteq> 100"
      by simp_all
    show ?thesis unfolding main_trace_search[OF v b]
      using search_trace_range[of p] v(2) by (simp add: INET_MIN_MTU_SIZE_def)
  qed
  show "main_trace h (new_device r) p \<noteq> []
        \<longrightarrow> fst (hd (main_trace h (new_device r) p)) = p_max_size p"
  proof
    assume "main_trace h (new_device r) p \<noteq> []"
    from c[OF this] have v: "p_max_range p \<in> set MAX_SIZE_CHOICES" "68 \<le> p_max_size p"
      "p_max_size p \<le> 65496"
      and b: "reported_loss h (p_count p)
          (reply (new_device r) (length (sent (new_device r))) (baseline_cmd p)) \<noteq> 100"
      by simp_all
    show "fst (hd (main_trace h (new_device r) p)) = p_max_size p"
      unfolding main_trace_search[OF v b] search_trace_first using v(2) by (rule clamp_size_max)
  qed
qed

theorem C6_probe_sizes_witness:
  "tl (probe_log demo_parsers c1_params (snd (main demo_parsers (new_device c1_reply) c1_params))) =
     map (\<lambda>(test_size, loss). (probe_cmd c1_params (str_int (test_size - (20 + 8))) True, loss))
       [(77, 100), (68, 0), (76, 0), (77, 100), (75, 100), (74, 0)]"
  using C6_probe_sizes[of demo_parsers c1_params c1_reply] unfolding c1_trace by blast

text \<open>
  Claim C7. When \<open>max_size\<close> is outside \<open>[68, 65496]\<close> or \<open>max_range\<close> is not 0 or a
  power of two from 2 to 65536, \<open>main\<close> ends with the rejection of \<open>max_range\<close> by the
  argument specification or with the \<open>fail_json\<close> about \<open>max_size\<close>, and the device is
  as it was: nothing was sent. Within these bounds the run ends in neither way, and it
  sends at least one command.
\<close>

theorem C7_configuration:
  "((p_max_size p < 68 \<or> 65496 < p_max_size p
      \<or> \<not> (p_max_range p = 0 \<or> (\<exists>k\<in>{1..16}. p_max_range p = 2 ^ k)))
     \<longrightarrow> (fst (main h d p) = Argument_error ''max_range''
          \<or> fst (main h d p) = Fail_json [''msg'' \<mapsto> VStr (''The value of the max_size option(''
                @ str_int (p_max_size p) @ '') must be between 68 and 65496.'')])
         \<and> snd (main h d p) = d)
   \<and> ((68 \<le> p_max_size p \<and> p_max_size p \<le> 65496
      \<and> (p_max_range p = 0 \<or> (\<exists>k\<in>{1..16}. p_max_range p = 2 ^ k)))
     \<longrightarrow> (\<forall>a. fst (main h d p) \<noteq> Argument_error a)
         \<and> (\<forall>m. fst (main h d p) \<noteq> Fail_json [''msg'' \<mapsto> m])
         \<and> sent (snd (main h d p)) \<noteq> sent d)"
proof (rule conjI; rule impI)
  assume a: "p_max_size p < 68 \<or> 65496 < p_max_size p
      \<or> \<not> (p_max_range p = 0 \<or> (\<exists>k\<in>{1..16}. p_max_range p = 2 ^ k))"
  show "(fst (main h d p) = Argument_error ''max_range''
          \<or> fst (main h d p) = Fail_json [''msg'' \<mapsto> VStr (''The value of the max_size option(''
                @ str_int (p_max_size p) @ '') must be between 68 and 65496.'')])
         \<and> snd (main h d p) = d"
  proof (cases "p_max_range p \<in> set MAX_SIZE_CHOICES")
    case False
    then show ?thesis by (simp add: main_invalid_range)
  next
    case True
    then have "p_max_size p < 68 \<or> 65496 < p_max_size p" using a by (simp add: choices_iff)
    from main_invalid_size[OF True this] show ?thesis by simp
  qed
next
  assume "68 \<le> p_max_size p \<and> p_max_size p \<le> 65496
      \<and> (p_max_range p = 0 \<or> (\<exists>k\<in>{1..16}. p_max_range p = 2 ^ k))"
  then have v: "p_max_range p \<in> set MAX_SIZE_CHOICES" "68 \<le> p_max_size p"
    "p_max_size p \<le> 65496" by (simp_all add: choices_iff)
  let ?d0 = "d\<lparr>sent := sent d @ [baseline_cmd p]\<rparr>"
  let ?L = "main_loop h p ?d0 (p_max_size p) (p_max_range p) (initial_results p)"
  show "(\<forall>a. fst (main h d p) \<noteq> Argument_error a)
         \<and> (\<forall>m. fst (main h d p) \<noteq> Fail_json [''msg'' \<mapsto> m])
         \<and> sent (snd (main h d p)) \<noteq> sent d"
  proof (cases "reported_loss h (p_count p) (reply d (length (sent d)) (baseline_cmd p)) = 100")
    case True
    show ?thesis unfolding main_baseline_lost[OF v True] by simp
  next
    case False
    from main_loop_sent[of h p ?d0 "p_max_size p" "p_max_range p" "initial_results p"]
    have s: "sent (snd ?L) \<noteq> sent d" by auto
    have k: "fst ?L ''dest'' = Some (VStr (p_dest p))"
      by (simp add: main_loop_other_keys initial_results_def)
    show ?thesis unfolding main_search[OF v False]
      using s dict_with_dest[of "fst ?L" "VStr (p_dest p)", OF k] by simp
  qed
qed

theorem C7_configuration_witness:
  "snd (main demo_parsers (new_device (\<lambda>k c. demo_ok)) (demo_params\<lparr>p_max_range := 300\<rparr>))
      = new_device (\<lambda>k c. demo_ok)
   \<and> sent (snd (main demo_parsers (new_device (\<lambda>k c. demo_ok)) demo_params))
      \<noteq> sent (new_device (\<lambda>k c. demo_ok))"
proof
  let ?p = "demo_params\<lparr>p_max_range := 300\<rparr>"
  have "p_max_size ?p < 68 \<or> 65496 < p_max_size ?p
      \<or> \<not> (p_max_range ?p = 0 \<or> (\<exists>k\<in>{1..16}. p_max_range ?p = 2 ^ k))"
    using demo_range_300 by simp
  with C7_configuration[of ?p demo_parsers "new_device (\<lambda>k c. demo_ok)"]
  show "snd (main demo_parsers (new_device (\<lambda>k c. demo_ok)) ?p) = new_device (\<lambda>k c. demo_ok)"
    by blast
next
  have "68 \<le> p_max_size demo_params \<and> p_max_size demo_params \<le> 65496
      \<and> (p_max_range demo_params = 0 \<or> (\<exists>k\<in>{1..16}. p_max_range demo_params = 2 ^ k))"
    using demo_range_512 by (simp add: demo_params_def)
  with C7_configuration[of demo_params demo_parsers "new_device (\<lambda>k c. demo_ok)"]
  show "sent (snd (main demo_parsers (new_device (\<lambda>k c. demo_ok)) demo_params))
      \<noteq> sent (new_device (\<lambda>k c. demo_ok))"
    by blast
qed

text \<open>
  Claim C8. When no line of the device's reply starts with "<count> packets
  transmitted", the result of \<open>run_ping\<close> has \<open>packet_loss = 100\<close>. \<open>run_ping\<close> itself
  has no default: the value is what \<open>parse_rate\<close> returns when \<open>rate_info\<close> is
  \<open>None\<close>, and \<open>parse_rate\<close> is modelled from the spec.
\<close>

theorem C8_no_summary_line:
  assumes "\<forall>line\<in>set (split_nl (reply d (length (sent d)) (probe_cmd p sz df))).
             \<not> startswith line (str_int (p_count p) @ '' packets transmitted'')"
  shows "packet_loss (fst (run_ping h d p sz df)) = 100"
proof -
  have "snd (scan_lines (p_count p) (split_nl (reply d (length (sent d)) (probe_cmd p sz df)))) = None"
    using assms by (rule scan_lines_no_rate)
  then show ?thesis
    by (simp add: run_ping_eq packet_loss_summary reported_loss_def parse_rate_def)
qed

theorem C8_no_summary_line_witness:
  "packet_loss (fst (run_ping demo_parsers (new_device (\<lambda>k c. ''error: connection closed''))
      demo_params ''1572'' True)) = 100"
  by (rule C8_no_summary_line)
     (simp add: new_device_def demo_params_def startswith_def str_int_def digits.simps
        digit_char_def)

text \<open>
  Claim C9 fails on the code. The \<open>results\<close> dictionary is created with the keys
  \<open>changed\<close>, \<open>failed\<close>, \<open>inet_mtu\<close> and \<open>dest\<close>, and only \<open>failed\<close>, \<open>inet_mtu\<close> and
  \<open>msg\<close> are written afterwards. In the example run the caller gives a source address
  and an interface, every probe succeeds, and the result has \<open>dest\<close> but neither
  \<open>source\<close> nor \<open>interface\<close>.
\<close>

theorem C9_source_not_echoed:
  "p_source demo_params = Some ''192.168.1.2''
   \<and> p_interface demo_params = Some ''ge-0/0/0.0''
   \<and> result_dict (fst (main demo_parsers (new_device (\<lambda>k c. demo_ok)) demo_params)) ''dest''
        = Some (VStr ''192.68.1.1'')
   \<and> result_dict (fst (main demo_parsers (new_device (\<lambda>k c. demo_ok)) demo_params)) ''source''
        = None
   \<and> result_dict (fst (main demo_parsers (new_device (\<lambda>k c. demo_ok)) demo_params)) ''interface''
        = None"
  by (simp add: main_no_source_keys)
     (simp add: demo_run_ok result_dict_def, simp add: demo_params_def)

text \<open>
  Claim C10. Changing \<open>df_bit\<close>, \<open>size\<close> and \<open>state\<close> changes neither the outcome of
  \<open>main\<close> nor what it sends to the same device. The first command of a run has the DF
  bit unset, every later one has it set.
\<close>

theorem C10_ignored_parameters:
  "main h d (p\<lparr>p_df_bit := b, p_size := z, p_state := st\<rparr>) = main h d p
   \<and> (\<forall>c\<in>set (take 1 (sent (snd (main h (new_device r) p)))). \<not> c_df_bit c)
   \<and> (\<forall>c\<in>set (drop 1 (sent (snd (main h (new_device r) p)))). c_df_bit c)"
proof -
  have "(\<forall>c\<in>set (take 1 (sent (snd (main h (new_device r) p)))). \<not> c_df_bit c)
   \<and> (\<forall>c\<in>set (drop 1 (sent (snd (main h (new_device r) p)))). c_df_bit c)"
    using main_sent_shape[of h r p]
  proof
    assume "sent (snd (main h (new_device r) p)) = []"
    then show ?thesis by simp
  next
    assume "\<exists>cs. sent (snd (main h (new_device r) p)) = baseline_cmd p # cs \<and>
         (\<forall>c\<in>set cs. \<exists>t. c = next_cmd p t) \<and> 68 \<le> p_max_size p"
    then obtain cs where s: "sent (snd (main h (new_device r) p)) = baseline_cmd p # cs"
      and q: "\<forall>c\<in>set cs. \<exists>t. c = next_cmd p t" by blast
    have "c_df_bit c" if "c \<in> set cs" for c
      using q that by (auto simp add: next_cmd_def probe_cmd_sel)
    then show ?thesis unfolding s by (simp add: baseline_cmd_eq probe_cmd_sel)
  qed
  then show ?thesis using main_params by blast
qed

theorem C10_ignored_parameters_witness:
  "main demo_parsers (new_device (\<lambda>k c. demo_ok))
       (demo_params\<lparr>p_df_bit := True, p_size := Some 9000, p_state := Absent\<rparr>)
     = main demo_parsers (new_device (\<lambda>k c. demo_ok)) demo_params
   \<and> \<not> c_df_bit (sent (snd (main demo_parsers (new_device (\<lambda>k c. demo_ok)) demo_params)) ! 0)
   \<and> c_df_bit (sent (snd (main demo_parsers (new_device (\<lambda>k c. demo_ok)) demo_params)) ! 1)"
  using C10_ignored_parameters[where h = demo_parsers and d = "new_device (\<lambda>k c. demo_ok)"
      and p = demo_params and b = True and z = "Some 9000" and st = Absent
      and r = "\<lambda>k c. demo_ok"]
  unfolding demo_run_ok snd_conv
  by simp

end
